theory Spec2Isabelle
  imports Main "HOL-Library.Word"
begin

unbundle bit_operations_syntax

section \<open>Machine types and constants\<close>

type_synonym uint64 = "64 word"
type_synonym uint32 = "32 word"
type_synonym uint16 = "16 word"
type_synonym uint8 = "8 word"

text \<open>Modelled from the spec: \<^verbatim>\<open>PGSIZE\<close> is a macro of riscv.h, which is not among the
  sources; the spec fixes the page frame at 4 KiB.\<close>

definition PGSIZE :: uint64 where
  "PGSIZE = 4096"

text \<open>\<^verbatim>\<open>PGROUNDUP(sz) = (sz + PGSIZE - 1) & ~(PGSIZE - 1)\<close> and
  \<^verbatim>\<open>PGROUNDDOWN(a) = a & ~(PGSIZE - 1)\<close>, on 64-bit unsigned values (both wrap).\<close>

definition PGROUNDUP :: "uint64 \<Rightarrow> uint64" where
  "PGROUNDUP sz = (sz + PGSIZE - 1) AND NOT (PGSIZE - 1)"

definition PGROUNDDOWN :: "uint64 \<Rightarrow> uint64" where
  "PGROUNDDOWN a = a AND NOT (PGSIZE - 1)"

section \<open>kalloc.c: the physical page allocator\<close>

text \<open>The linker symbol \<^verbatim>\<open>end\<close> and the macro \<^verbatim>\<open>PHYSTOP\<close> (memlayout.h) are not in
  the sources; they are parameters of the model.\<close>

record memlayout =
  kend :: uint64
  PHYSTOP :: uint64

text \<open>\<^verbatim>\<open>kmem.freelist\<close> is a pointer (0 is the null pointer); the list nodes live in the
  free pages themselves, so the \<^verbatim>\<open>next\<close> field of each \<^verbatim>\<open>struct run\<close> is a store from
  page addresses to pointers.\<close>

record kmem =
  freelist :: uint64
  nxt :: "uint64 \<Rightarrow> uint64"

text \<open>What \<^verbatim>\<open>memset(r, 5, PGSIZE)\<close> leaves in the first eight bytes of an allocated page.\<close>

definition junk5 :: uint64 where
  "junk5 = 0x0505050505050505"

text \<open>\<^verbatim>\<open>kfree\<close>: \<open>None\<close> is \<^verbatim>\<open>panic("kfree")\<close>. The junk fill with 1 is overwritten by
  the store of \<^verbatim>\<open>r->next\<close>.\<close>

definition kfree :: "memlayout \<Rightarrow> kmem \<Rightarrow> uint64 \<Rightarrow> kmem option" where
  "kfree L k pa =
     (if pa mod PGSIZE \<noteq> 0 \<or> pa < kend L \<or> PHYSTOP L \<le> pa then None
      else Some \<lparr>freelist = pa, nxt = (nxt k)(pa := freelist k)\<rparr>)"

text \<open>\<^verbatim>\<open>kalloc\<close>: returns the head of the free list (0 when it is empty) and the
  new allocator state.\<close>

definition kalloc :: "kmem \<Rightarrow> uint64 \<times> kmem" where
  "kalloc k =
     (let r = freelist k in
      if r \<noteq> 0 then (r, \<lparr>freelist = nxt k r, nxt = (nxt k)(r := junk5)\<rparr>)
      else (r, k))"

text \<open>The free list as a finite chain of non-null pages ending in the null pointer.\<close>

fun is_chain :: "(uint64 \<Rightarrow> uint64) \<Rightarrow> uint64 \<Rightarrow> uint64 list \<Rightarrow> bool" where
  "is_chain nx h [] = (h = 0)"
| "is_chain nx h (x # xs) = (h = x \<and> x \<noteq> 0 \<and> is_chain nx (nx x) xs)"

text \<open>The allocator's state is well formed for a list \<open>held\<close> of frames in the hands of
  callers: the free list is a chain \<open>fl\<close> without repetition, and no held frame is
  on it.\<close>

definition kmem_inv :: "kmem \<Rightarrow> uint64 list \<Rightarrow> uint64 list \<Rightarrow> bool" where
  "kmem_inv k fl held =
     (is_chain (nxt k) (freelist k) fl \<and> distinct fl \<and> 0 \<notin> set held
      \<and> set fl \<inter> set held = {})"

datatype kop = Kalloc | Kfree uint64

text \<open>What a caller sees of a call: the pointer that \<^verbatim>\<open>kalloc\<close> returned (0 when there is
  no memory), or the pointer it passed to \<^verbatim>\<open>kfree\<close>.\<close>

datatype kev = Alloc uint64 | Free uint64

text \<open>A sequence of calls of \<^verbatim>\<open>kalloc\<close> and \<^verbatim>\<open>kfree\<close>, as any kernel code may make them,
  with the trace of what the callers saw. \<open>None\<close> is the panic of \<^verbatim>\<open>kfree\<close>; \<^verbatim>\<open>kfree\<close>
  accepts every page-aligned pointer inside the range, also one that is already free.\<close>

fun kmem_run :: "memlayout \<Rightarrow> kmem \<Rightarrow> kop list \<Rightarrow> (kev list \<times> kmem) option" where
  "kmem_run L k [] = Some ([], k)"
| "kmem_run L k (Kalloc # ops) =
     (case kalloc k of (p, k1) \<Rightarrow>
        (case kmem_run L k1 ops of
           None \<Rightarrow> None
         | Some (evs, k') \<Rightarrow> Some (Alloc p # evs, k')))"
| "kmem_run L k (Kfree pa # ops) =
     (case kfree L k pa of
        None \<Rightarrow> None
      | Some k1 \<Rightarrow>
        (case kmem_run L k1 ops of
           None \<Rightarrow> None
         | Some (evs, k') \<Rightarrow> Some (Free pa # evs, k')))"

text \<open>The frames in the hands of callers after a trace, from those in their hands before
  it: the frames that \<^verbatim>\<open>kalloc\<close> returned and that were not passed to \<^verbatim>\<open>kfree\<close> since.\<close>

fun held_after :: "uint64 list \<Rightarrow> kev list \<Rightarrow> uint64 list" where
  "held_after held [] = held"
| "held_after held (Alloc p # evs) = held_after (if p = 0 then held else p # held) evs"
| "held_after held (Free pa # evs) = held_after (removeAll pa held) evs"

text \<open>The property of the claim, read on a trace: no \<^verbatim>\<open>kalloc\<close> returns a frame that is in
  the hands of a caller, that is, one returned before and not passed to \<^verbatim>\<open>kfree\<close>
  since.\<close>

fun no_alias :: "uint64 list \<Rightarrow> kev list \<Rightarrow> bool" where
  "no_alias held [] = True"
| "no_alias held (Alloc p # evs) =
     (p \<notin> set held \<and> no_alias (if p = 0 then held else p # held) evs)"
| "no_alias held (Free pa # evs) = no_alias (removeAll pa held) evs"

text \<open>The discipline of the callers that \<^verbatim>\<open>kfree\<close> does not check: every pointer passed
  to \<^verbatim>\<open>kfree\<close> is a frame in the hands of a caller at that moment (no frame is freed
  twice, and none that is on the free list).\<close>

fun frees_held :: "uint64 list \<Rightarrow> kev list \<Rightarrow> bool" where
  "frees_held held [] = True"
| "frees_held held (Alloc p # evs) = frees_held (if p = 0 then held else p # held) evs"
| "frees_held held (Free pa # evs) = (pa \<in> set held \<and> frees_held (removeAll pa held) evs)"

section \<open>net.c: UDP sockets\<close>

text \<open>Modelled from the spec: net.h is not among the sources. The wire formats of the
  spec give the header sizes (Ethernet II 14 bytes, IPv4 with IHL 5 20 bytes, UDP 8 bytes)
  and the protocol number of UDP, 17.\<close>

definition SOCK_MAX :: nat where
  "SOCK_MAX = 16"

definition QUEUE_MAX :: int where
  "QUEUE_MAX = 16"

definition IPPROTO_UDP :: uint8 where
  "IPPROTO_UDP = 17"

definition sizeof_eth :: uint64 where
  "sizeof_eth = 14"

definition sizeof_ip :: uint64 where
  "sizeof_ip = 20"

definition sizeof_udp :: uint64 where
  "sizeof_udp = 8"

text \<open>The header fields that \<^verbatim>\<open>ip_rx\<close> and \<^verbatim>\<open>sys_recv\<close> read from a received frame, in
  host byte order (the values of \<^verbatim>\<open>ntohs\<close> and \<^verbatim>\<open>ntohl\<close>), and the UDP payload.\<close>

record frame =
  ip_p :: uint8
  ip_src :: uint32
  udp_sport :: uint16
  udp_dport :: uint16
  udp_ulen :: uint16
  payload :: "uint8 list"

text \<open>\<^verbatim>\<open>struct packet\<close>. \<open>pkt_page\<close> is the page from \<^verbatim>\<open>kalloc\<close> that holds the entry
  itself, \<open>pkt_frame\<close> the contents of the buffer at \<open>buf\<close>; the \<^verbatim>\<open>next\<close> pointers are the
  order of the list that holds the entries.\<close>

record packet =
  pkt_page :: uint64
  buf :: uint64
  len :: int
  src_ip :: uint32
  src_port :: uint16
  pkt_frame :: frame

record sock =
  used :: bool
  port :: uint16
  queue :: "packet list"
  queue_len :: int

text \<open>The socket table and the page allocator it shares with the rest of the kernel.\<close>

record net =
  sockets :: "sock list"
  km :: kmem

definition netinit :: "kmem \<Rightarrow> net" where
  "netinit k =
     \<lparr>sockets = replicate SOCK_MAX \<lparr>used = False, port = 0, queue = [], queue_len = 0\<rparr>,
      km = k\<rparr>"

text \<open>The loops \<^verbatim>\<open>for(i = 0; i < SOCK_MAX; i++) if(...) { ...; break; }\<close>: the index of the
  first socket of the table that satisfies the test.\<close>

fun sock_index :: "(sock \<Rightarrow> bool) \<Rightarrow> sock list \<Rightarrow> nat option" where
  "sock_index P [] = None"
| "sock_index P (s # ss) = (if P s then Some 0 else map_option Suc (sock_index P ss))"

definition bound_to :: "int \<Rightarrow> sock \<Rightarrow> bool" where
  "bound_to p s = (used s \<and> uint (port s) = p)"

text \<open>\<^verbatim>\<open>sys_bind\<close>: the return value and the new state.\<close>

definition sys_bind :: "net \<Rightarrow> int \<Rightarrow> uint64 \<times> net" where
  "sys_bind s p =
     (if p < 0 \<or> p > 65535 then (- 1, s)
      else if sock_index (bound_to p) (sockets s) \<noteq> None then (- 1, s)
      else case sock_index (\<lambda>sk. \<not> used sk) (sockets s) of
             Some i \<Rightarrow>
               (0, s\<lparr>sockets := (sockets s)
                      [i := \<lparr>used = True, port = word_of_int p, queue = [], queue_len = 0\<rparr>]\<rparr>)
           | None \<Rightarrow> (- 1, s))"

text \<open>\<^verbatim>\<open>sys_unbind\<close>: its body is a comment and \<^verbatim>\<open>return 0\<close>.\<close>

definition sys_unbind :: "net \<Rightarrow> int \<Rightarrow> uint64 \<times> net" where
  "sys_unbind s p = (0, s)"

text \<open>\<^verbatim>\<open>ip_rx(buf, len)\<close>, \<open>f\<close> being the contents of the buffer. \<open>None\<close> is a panic of
  \<^verbatim>\<open>kfree\<close>. The comparison of \<open>len\<close> with the sum of the \<^verbatim>\<open>sizeof\<close>s is unsigned. The
  \<^verbatim>\<open>printf\<close> of the first packet and \<^verbatim>\<open>wakeup\<close> do not change the state.\<close>

definition drop_buf :: "memlayout \<Rightarrow> net \<Rightarrow> uint64 \<Rightarrow> net option" where
  "drop_buf L s b = map_option (\<lambda>k. s\<lparr>km := k\<rparr>) (kfree L (km s) b)"

definition ip_rx :: "memlayout \<Rightarrow> net \<Rightarrow> uint64 \<Rightarrow> frame \<Rightarrow> int \<Rightarrow> net option" where
  "ip_rx L s b f n =
     (if ip_p f \<noteq> IPPROTO_UDP then drop_buf L s b
      else if (word_of_int n :: uint64) < sizeof_eth + sizeof_ip + sizeof_udp then drop_buf L s b
      else case sock_index (bound_to (uint (udp_dport f))) (sockets s) of
             None \<Rightarrow> drop_buf L s b
           | Some i \<Rightarrow>
               let sk = sockets s ! i in
               if queue_len sk \<ge> QUEUE_MAX then drop_buf L s b
               else case kalloc (km s) of (pa, k1) \<Rightarrow>
                 if pa = 0 then drop_buf L s b
                 else
                   let pkt = \<lparr>pkt_page = pa, buf = b, len = n, src_ip = ip_src f,
                              src_port = udp_sport f, pkt_frame = f\<rparr>
                   in Some \<lparr>sockets = (sockets s)
                              [i := sk\<lparr>queue := queue sk @ [pkt], queue_len := queue_len sk + 1\<rparr>],
                            km = k1\<rparr>)"

text \<open>What \<^verbatim>\<open>sys_recv\<close> hands to \<^verbatim>\<open>copyout\<close>: the destination and the bytes.\<close>

datatype uout = Out_ip uint64 uint32 | Out_port uint64 uint16 | Out_payload uint64 "uint8 list"

text \<open>A system call that can sleep either returns a value, with the copies to user
  space that succeeded, or sleeps on its channel; the state is the one it leaves.\<close>

datatype 'a outcome = Returns uint64 "uout list" 'a | Sleeps 'a

text \<open>\<^verbatim>\<open>sys_recv\<close>. \<open>co dst n\<close> says whether \<^verbatim>\<open>copyout\<close> of \<open>n\<close> bytes to the user address
  \<open>dst\<close> succeeds (the page table is not part of the model). With an empty queue the
  process sleeps on the socket; \<^verbatim>\<open>ip_rx\<close> wakes it and the loop tests the queue again.
  \<open>None\<close> is a panic of \<^verbatim>\<open>kfree\<close>.\<close>

definition free_pkt :: "memlayout \<Rightarrow> kmem \<Rightarrow> packet \<Rightarrow> kmem option" where
  "free_pkt L k pkt =
     (case kfree L k (buf pkt) of None \<Rightarrow> None | Some k1 \<Rightarrow> kfree L k1 (pkt_page pkt))"

definition sys_recv ::
  "memlayout \<Rightarrow> (uint64 \<Rightarrow> uint64 \<Rightarrow> bool) \<Rightarrow> net \<Rightarrow> int \<Rightarrow> uint64 \<Rightarrow> uint64 \<Rightarrow> uint64 \<Rightarrow> int
   \<Rightarrow> net outcome option" where
  "sys_recv L co s dport src_addr sport_addr buf_addr maxlen =
     (if dport < 0 \<or> dport > 65535 \<or> maxlen < 0 then Some (Returns (- 1) [] s)
      else case sock_index (bound_to dport) (sockets s) of
             None \<Rightarrow> Some (Returns (- 1) [] s)
           | Some i \<Rightarrow>
               let sk = sockets s ! i in
               (case queue sk of
                  [] \<Rightarrow> Some (Sleeps s)
                | pkt # rest \<Rightarrow>
                    let s1 = s\<lparr>sockets := (sockets s)
                               [i := sk\<lparr>queue := rest, queue_len := queue_len sk - 1\<rparr>]\<rparr>;
                        udp_payload_len = uint (udp_ulen (pkt_frame pkt)) - 8;
                        copy_len = (if udp_payload_len < maxlen then udp_payload_len else maxlen);
                        n = (word_of_int copy_len :: uint64);
                        o1 = Out_ip src_addr (src_ip pkt);
                        o2 = Out_port sport_addr (src_port pkt);
                        o3 = Out_payload buf_addr (take (unat n) (payload (pkt_frame pkt)));
                        (ret, outs) =
                          (if \<not> co src_addr 4 then (- 1, [])
                           else if \<not> co sport_addr 2 then (- 1, [o1])
                           else if \<not> co buf_addr n then (- 1, [o1, o2])
                           else (n, [o1, o2, o3]))
                    in map_option (\<lambda>k. Returns ret outs (s1\<lparr>km := k\<rparr>)) (free_pkt L (km s) pkt)))"

datatype netop =
    Bind int
  | Unbind int
  | Rx uint64 frame int
  | Recv int uint64 uint64 uint64 int

text \<open>One step of the network layer, and a sequence of steps: the state each call
  leaves (that of a sleeping \<^verbatim>\<open>recv\<close> included).\<close>

fun net_exec :: "memlayout \<Rightarrow> (uint64 \<Rightarrow> uint64 \<Rightarrow> bool) \<Rightarrow> net \<Rightarrow> netop \<Rightarrow> net option" where
  "net_exec L co s (Bind p) = Some (snd (sys_bind s p))"
| "net_exec L co s (Unbind p) = Some (snd (sys_unbind s p))"
| "net_exec L co s (Rx b f n) = ip_rx L s b f n"
| "net_exec L co s (Recv dport a1 a2 a3 maxlen) =
     (case sys_recv L co s dport a1 a2 a3 maxlen of
        None \<Rightarrow> None
      | Some (Returns r outs s') \<Rightarrow> Some s'
      | Some (Sleeps s') \<Rightarrow> Some s')"

fun net_run :: "memlayout \<Rightarrow> (uint64 \<Rightarrow> uint64 \<Rightarrow> bool) \<Rightarrow> net \<Rightarrow> netop list \<Rightarrow> net option" where
  "net_run L co s [] = Some s"
| "net_run L co s (op # ops) =
     (case net_exec L co s op of None \<Rightarrow> None | Some s' \<Rightarrow> net_run L co s' ops)"

text \<open>The queue of every socket has the length its counter says, at most 16.\<close>

definition queues_ok :: "net \<Rightarrow> bool" where
  "queues_ok s =
     (\<forall>sk \<in> set (sockets s). queue_len sk = int (length (queue sk)) \<and> length (queue sk) \<le> 16)"

section \<open>e1000.c: the transmit ring, and \<^verbatim>\<open>sys_send\<close> of net.c\<close>

text \<open>Modelled from the spec: e1000_dev.h is not among the sources. A descriptor has
  the fields the driver writes; the bit values are those of the E1000 manual, which the
  spec names DD, EOP and RS.\<close>

definition TX_RING_SIZE :: nat where
  "TX_RING_SIZE = 16"

definition RX_RING_SIZE :: nat where
  "RX_RING_SIZE = 16"

definition E1000_TXD_STAT_DD :: uint8 where
  "E1000_TXD_STAT_DD = 0x01"

definition E1000_TXD_CMD_EOP :: uint8 where
  "E1000_TXD_CMD_EOP = 0x01"

definition E1000_TXD_CMD_RS :: uint8 where
  "E1000_TXD_CMD_RS = 0x08"

record tx_desc =
  addr :: uint64
  dlength :: uint16
  cmd :: uint8
  status :: uint8

record rx_desc =
  rx_addr :: uint64
  rx_length :: uint16
  rx_status :: uint8

text \<open>The rings, the stashed buffer pointers, the two tail registers, and the page
  allocator.\<close>

record nic =
  tx_ring :: "tx_desc list"
  tx_bufs :: "uint64 list"
  TDT :: uint32
  rx_ring :: "rx_desc list"
  rx_bufs :: "uint64 list"
  RDT :: uint32
  nkm :: kmem

text \<open>The receive loop of \<^verbatim>\<open>e1000_init\<close>: one page from \<^verbatim>\<open>kalloc\<close> per slot; \<open>None\<close> is
  \<^verbatim>\<open>panic("e1000")\<close>.\<close>

fun rx_init :: "nat \<Rightarrow> kmem \<Rightarrow> (uint64 list \<times> kmem) option" where
  "rx_init 0 k = Some ([], k)"
| "rx_init (Suc n) k =
     (case kalloc k of (pa, k1) \<Rightarrow>
        if pa = 0 then None
        else case rx_init n k1 of None \<Rightarrow> None | Some (bs, k2) \<Rightarrow> Some (pa # bs, k2))"

text \<open>\<^verbatim>\<open>e1000_init\<close>, as far as the rings go: every transmit descriptor is zero but for
  its status DD, no buffer is stashed, and the tails are 0 and \<^verbatim>\<open>RX_RING_SIZE - 1\<close>.\<close>

definition e1000_init :: "kmem \<Rightarrow> nic option" where
  "e1000_init k =
     (case rx_init RX_RING_SIZE k of
        None \<Rightarrow> None
      | Some (bs, k1) \<Rightarrow>
          Some \<lparr>tx_ring = replicate TX_RING_SIZE
                            \<lparr>addr = 0, dlength = 0, cmd = 0, status = E1000_TXD_STAT_DD\<rparr>,
                tx_bufs = replicate TX_RING_SIZE 0,
                TDT = 0,
                rx_ring = map (\<lambda>b. \<lparr>rx_addr = b, rx_length = 0, rx_status = 0\<rparr>) bs,
                rx_bufs = bs,
                RDT = of_nat (RX_RING_SIZE - 1),
                nkm = k1\<rparr>)"

text \<open>\<^verbatim>\<open>e1000_transmit(buf, len)\<close>: the return value and the new state. \<open>None\<close> is a
  panic of \<^verbatim>\<open>kfree\<close>, or a tail register that points outside the ring, where the C code
  has no defined behaviour.\<close>

definition e1000_transmit :: "memlayout \<Rightarrow> nic \<Rightarrow> uint64 \<Rightarrow> int \<Rightarrow> (int \<times> nic) option" where
  "e1000_transmit L s b n =
     (let tdt = unat (TDT s) in
      if tdt \<ge> TX_RING_SIZE \<or> length (tx_ring s) \<noteq> TX_RING_SIZE
         \<or> length (tx_bufs s) \<noteq> TX_RING_SIZE then None
      else if status (tx_ring s ! tdt) AND E1000_TXD_STAT_DD = 0 then Some (- 1, s)
      else
        case (if tx_bufs s ! tdt \<noteq> 0 then kfree L (nkm s) (tx_bufs s ! tdt)
              else Some (nkm s)) of
          None \<Rightarrow> None
        | Some k1 \<Rightarrow>
            Some (0, s\<lparr>tx_ring := (tx_ring s)
                          [tdt := \<lparr>addr = b, dlength = word_of_int n,
                                   cmd = E1000_TXD_CMD_EOP OR E1000_TXD_CMD_RS, status = 0\<rparr>],
                        tx_bufs := (tx_bufs s)[tdt := b],
                        TDT := (TDT s + 1) mod of_nat TX_RING_SIZE,
                        nkm := k1\<rparr>))"

text \<open>\<^verbatim>\<open>sys_send(sport, dst, dport, bufaddr, len)\<close>. \<open>ci a n\<close> says whether \<^verbatim>\<open>copyin\<close> of
  \<open>n\<close> bytes from the user address \<open>a\<close> succeeds. \<^verbatim>\<open>total\<close> is an \<^verbatim>\<open>int\<close>. The bytes
  of the frame (headers, checksum, payload) are not part of the state; the value that
  \<^verbatim>\<open>e1000_transmit\<close> returns is not used by the C code.\<close>

definition sys_send ::
  "memlayout \<Rightarrow> (uint64 \<Rightarrow> uint64 \<Rightarrow> bool) \<Rightarrow> nic \<Rightarrow> int \<Rightarrow> int \<Rightarrow> int \<Rightarrow> uint64 \<Rightarrow> int
   \<Rightarrow> (uint64 \<times> nic) option" where
  "sys_send L ci s sport dst dport bufaddr n =
     (let total = sint (word_of_int n + 14 + 20 + 8 :: uint32) in
      if total > 4096 then Some (- 1, s)
      else case kalloc (nkm s) of (b, k1) \<Rightarrow>
        if b = 0 then Some (- 1, s)
        else if \<not> ci bufaddr (word_of_int n) then
          map_option (\<lambda>k2. (- 1, s\<lparr>nkm := k2\<rparr>)) (kfree L k1 b)
        else
          case e1000_transmit L (s\<lparr>nkm := k1\<rparr>) b total of
            None \<Rightarrow> None
          | Some (r, s') \<Rightarrow> Some (0, s'))"

text \<open>A sequence of \<^verbatim>\<open>send\<close> calls of four bytes each from user address \<open>a\<close>, with the
  values they return.\<close>

fun sends :: "memlayout \<Rightarrow> (uint64 \<Rightarrow> uint64 \<Rightarrow> bool) \<Rightarrow> nic \<Rightarrow> nat \<Rightarrow> (uint64 list \<times> nic) option" where
  "sends L ci s 0 = Some ([], s)"
| "sends L ci s (Suc m) =
     (case sys_send L ci s 2000 0x0A000202 2345 0x2000 4 of
        None \<Rightarrow> None
      | Some (r, s1) \<Rightarrow>
          (case sends L ci s1 m of None \<Rightarrow> None | Some (rs, s2) \<Rightarrow> Some (r # rs, s2)))"

section \<open>sysfile.c: \<^verbatim>\<open>sys_link\<close>\<close>

text \<open>Modelled from the spec: the inode layer (fs.c, file.h, stat.h) is not among the
  sources; the spec lists its functions as external collaborators. An in-memory inode
  has the fields \<^verbatim>\<open>sys_link\<close> reads and writes (\<^verbatim>\<open>type\<close> and \<^verbatim>\<open>nlink\<close> are \<^verbatim>\<open>short\<close>,
  \<^verbatim>\<open>dev\<close> and \<^verbatim>\<open>inum\<close> are \<^verbatim>\<open>uint\<close>); \<^verbatim>\<open>T_DIR\<close> is 1 as in xv6's stat.h. Inodes are named
  by their pointers.\<close>

definition T_DIR :: uint16 where
  "T_DIR = 1"

record inode =
  itype :: uint16
  nlink :: uint16
  idev :: uint32
  inum :: uint32

type_synonym iptr = nat

text \<open>What the inode layer answers during one call: \<^verbatim>\<open>namei\<close> and \<^verbatim>\<open>nameiparent\<close> look a
  path up (\<open>None\<close> is the null pointer), \<open>dirlink_ok dp name inum\<close> says whether
  \<^verbatim>\<open>dirlink\<close> returns 0.\<close>

record fs_env =
  namei :: "string \<Rightarrow> iptr option"
  nameiparent :: "string \<Rightarrow> (iptr \<times> string) option"
  dirlink_ok :: "iptr \<Rightarrow> string \<Rightarrow> uint32 \<Rightarrow> bool"

text \<open>The calls into the inode layer and the journal, in the order they are made.
  \<open>Iupdate\<close> carries the inode as it is written to disk.\<close>

datatype fs_call =
    Begin_op
  | End_op
  | Namei string
  | Nameiparent string
  | Ilock iptr
  | Iunlock iptr
  | Iupdate iptr inode
  | Iput iptr
  | Iunlockput iptr
  | Dirlink iptr string uint32

text \<open>The label \<^verbatim>\<open>bad\<close> of \<^verbatim>\<open>sys_link\<close>: undo the increment and return -1.\<close>

definition link_bad ::
  "(iptr \<Rightarrow> inode) \<Rightarrow> iptr \<Rightarrow> fs_call list \<Rightarrow> uint64 \<times> (iptr \<Rightarrow> inode) \<times> fs_call list" where
  "link_bad ino ip calls =
     (let i1 = (ino ip)\<lparr>nlink := nlink (ino ip) - 1\<rparr> in
      (- 1, ino(ip := i1), calls @ [Ilock ip, Iupdate ip i1, Iunlockput ip, End_op]))"

text \<open>\<^verbatim>\<open>sys_link\<close>: the return value, the inodes and the calls made. \<open>old\<close> and \<open>new\<close> are
  the two path arguments, \<open>None\<close> when \<^verbatim>\<open>argstr\<close> fails.\<close>

definition sys_link ::
  "fs_env \<Rightarrow> (iptr \<Rightarrow> inode) \<Rightarrow> string option \<Rightarrow> string option
   \<Rightarrow> uint64 \<times> (iptr \<Rightarrow> inode) \<times> fs_call list" where
  "sys_link env ino old new =
     (case (old, new) of
        (Some opath, Some npath) \<Rightarrow>
          (case namei env opath of
             None \<Rightarrow> (- 1, ino, [Begin_op, Namei opath, End_op])
           | Some ip \<Rightarrow>
               if itype (ino ip) = T_DIR then
                 (- 1, ino, [Begin_op, Namei opath, Ilock ip, Iunlockput ip, End_op])
               else
                 let i1 = (ino ip)\<lparr>nlink := nlink (ino ip) + 1\<rparr>;
                     ino1 = ino(ip := i1);
                     c1 = [Begin_op, Namei opath, Ilock ip, Iupdate ip i1, Iunlock ip,
                           Nameiparent npath]
                 in (case nameiparent env npath of
                       None \<Rightarrow> link_bad ino1 ip c1
                     | Some (dp, name) \<Rightarrow>
                         if idev (ino1 dp) \<noteq> idev (ino1 ip) then
                           link_bad ino1 ip (c1 @ [Ilock dp, Iunlockput dp])
                         else if \<not> dirlink_ok env dp name (inum (ino1 ip)) then
                           link_bad ino1 ip
                             (c1 @ [Ilock dp, Dirlink dp name (inum (ino1 ip)), Iunlockput dp])
                         else
                           (0, ino1,
                            c1 @ [Ilock dp, Dirlink dp name (inum (ino1 ip)), Iunlockput dp,
                                  Iput ip, End_op])))
      | _ \<Rightarrow> (- 1, ino, []))"

text \<open>Whether a call \<^verbatim>\<open>dirlink\<close> in a list of calls comes after an \<^verbatim>\<open>iupdate\<close> of the inode
  \<open>ip\<close> with link count \<open>n\<close>.\<close>

fun dirlink_after_update :: "iptr \<Rightarrow> uint16 \<Rightarrow> bool \<Rightarrow> fs_call list \<Rightarrow> bool" where
  "dirlink_after_update ip n seen [] = True"
| "dirlink_after_update ip n seen (Iupdate p i # cs) =
     dirlink_after_update ip n (seen \<or> (p = ip \<and> nlink i = n)) cs"
| "dirlink_after_update ip n seen (Dirlink dp name k # cs) =
     (seen \<and> dirlink_after_update ip n seen cs)"
| "dirlink_after_update ip n seen (c # cs) = dirlink_after_update ip n seen cs"

section \<open>sysfile.c: \<^verbatim>\<open>sys_mmap\<close>, \<^verbatim>\<open>sys_munmap\<close> and \<^verbatim>\<open>handle_mmap_fault\<close>\<close>

text \<open>Modelled from the spec: fcntl.h, proc.h, file.h, riscv.h and memlayout.h are not
  among the sources. \<^verbatim>\<open>MAP_SHARED\<close> and the \<^verbatim>\<open>PROT_\<close> bits have the values of xv6's
  fcntl.h; \<^verbatim>\<open>struct vma\<close> has the fields that the three functions use, the addresses,
  lengths and offsets being \<^verbatim>\<open>uint64\<close> as the locals they are copied to. \<^verbatim>\<open>MAXVA\<close> and
  \<^verbatim>\<open>TRAPFRAME\<close> are parameters.\<close>

definition MAP_SHARED :: uint32 where
  "MAP_SHARED = 0x01"

definition MAP_PRIVATE :: uint32 where
  "MAP_PRIVATE = 0x02"

definition PROT_READ :: uint32 where
  "PROT_READ = 0x1"

definition PROT_WRITE :: uint32 where
  "PROT_WRITE = 0x2"

definition PROT_EXEC :: uint32 where
  "PROT_EXEC = 0x4"

record vmconst =
  MAXVA :: uint64
  TRAPFRAME :: uint64

type_synonym fptr = nat

record vma =
  vused :: bool
  vaddr :: uint64
  vlen :: uint64
  vprot :: uint32
  vflags :: uint32
  vf :: fptr
  voffset :: uint64

text \<open>\<^verbatim>\<open>struct file\<close>.\<close>

record openfile =
  readable :: bool
  writable :: bool
  fip :: iptr
  fref :: int

text \<open>The process (\<^verbatim>\<open>sz\<close>, open files, VMA slots, and the user pages that are present in
  its page table with their physical addresses), the open-file table, the size and the
  bytes of every inode, the bytes of every physical page, and the page allocator.\<close>

record mstate =
  sz :: uint64
  ofile :: "fptr option list"
  vmas :: "vma list"
  pagetable :: "uint64 \<Rightarrow> uint64 option"
  files :: "fptr \<Rightarrow> openfile"
  isize :: "iptr \<Rightarrow> uint32"
  idata :: "iptr \<Rightarrow> nat \<Rightarrow> uint8"
  mem :: "uint64 \<Rightarrow> nat \<Rightarrow> uint8"
  mkm :: kmem

text \<open>Calls into the file system, the journal and the virtual-memory layer, in order.\<close>

datatype vm_call =
    V_begin_op
  | V_end_op
  | V_ilock iptr
  | V_iunlock iptr
  | V_writei iptr uint64 uint64 uint64
  | V_readi iptr uint64 uint64 uint64
  | V_uvmunmap uint64
  | V_mappages uint64 uint64 uint32
  | V_filedup fptr
  | V_fileclose fptr

text \<open>The first slot of a table that satisfies a test (\<^verbatim>\<open>for ... if(...) { ...; break; }\<close>).\<close>

fun first_index :: "('a \<Rightarrow> bool) \<Rightarrow> 'a list \<Rightarrow> nat option" where
  "first_index P [] = None"
| "first_index P (x # xs) = (if P x then Some 0 else map_option Suc (first_index P xs))"

text \<open>The body of the search loop of \<^verbatim>\<open>sys_mmap\<close>: does the region of \<open>n\<close> bytes at \<open>va\<close>
  overlap a used VMA, or end above \<^verbatim>\<open>TRAPFRAME\<close>? All sums are 64-bit and wrap.\<close>

definition mmap_conflict :: "vmconst \<Rightarrow> vma list \<Rightarrow> uint64 \<Rightarrow> uint64 \<Rightarrow> bool" where
  "mmap_conflict C vs va n =
     (list_ex (\<lambda>v. vused v \<and> \<not> (va + n \<le> vaddr v \<or> va \<ge> vaddr v + vlen v)) vs
      \<or> va + n > TRAPFRAME C)"

text \<open>The search loop \<^verbatim>\<open>for(; va >= p->sz + sz; va -= PGSIZE)\<close>: the value of \<open>va\<close> when it
  ends. Nothing in the C code bounds the number of rounds (\<open>va\<close> wraps below 0), so the
  result is \<open>None\<close> when the loop does not end.\<close>

partial_function (option) mmap_search ::
  "vmconst \<Rightarrow> vma list \<Rightarrow> uint64 \<Rightarrow> uint64 \<Rightarrow> uint64 \<Rightarrow> uint64 option" where
  "mmap_search C vs lim n va =
     (if va \<ge> lim then
        (if \<not> mmap_conflict C vs va n then Some va
         else mmap_search C vs lim n (va - PGSIZE))
      else Some va)"

text \<open>\<^verbatim>\<open>sys_mmap(addr, len, prot, flags, fd, offset)\<close>: the return value, the new state
  and the calls made; \<open>None\<close> when the search loop does not end.\<close>

definition mmap_failed :: uint64 where
  "mmap_failed = 0xffffffffffffffff"

definition sys_mmap ::
  "vmconst \<Rightarrow> mstate \<Rightarrow> uint64 \<Rightarrow> uint64 \<Rightarrow> uint32 \<Rightarrow> uint32 \<Rightarrow> int \<Rightarrow> uint64
   \<Rightarrow> (uint64 \<times> mstate \<times> vm_call list) option" where
  "sys_mmap C s a n prot flags fd off =
     (if a \<noteq> 0 then Some (mmap_failed, s, [])
      else if n = 0 then Some (mmap_failed, s, [])
      else if fd < 0 \<or> fd \<ge> int (length (ofile s)) then Some (mmap_failed, s, [])
      else case ofile s ! nat fd of
        None \<Rightarrow> Some (mmap_failed, s, [])
      | Some f \<Rightarrow>
          if flags = MAP_SHARED \<and> prot AND PROT_WRITE \<noteq> 0 \<and> \<not> writable (files s f)
          then Some (mmap_failed, s, [])
          else if \<not> readable (files s f) then Some (mmap_failed, s, [])
          else case first_index (\<lambda>v. \<not> vused v) (vmas s) of
            None \<Rightarrow> Some (mmap_failed, s, [])
          | Some i \<Rightarrow>
              (case mmap_search C (vmas s) (sz s + PGROUNDUP n) (PGROUNDUP n)
                      (MAXVA C - PGSIZE) of
                 None \<Rightarrow> None
               | Some va \<Rightarrow>
                   if va < sz s + PGROUNDUP n then Some (mmap_failed, s, [])
                   else Some (va,
                     s\<lparr>vmas := (vmas s)
                          [i := \<lparr>vused = True, vaddr = va, vlen = PGROUNDUP n, vprot = prot,
                                 vflags = flags, vf = f, voffset = off\<rparr>],
                       files := (files s)(f := (files s f)\<lparr>fref := fref (files s f) + 1\<rparr>)\<rparr>,
                     [V_filedup f])))"

text \<open>The pages \<^verbatim>\<open>for(va = start; va < end; va += PGSIZE)\<close> visits. The sum wraps only
  for a \<open>va\<close> in the last page of the address space; there the list ends.\<close>

function page_range :: "uint64 \<Rightarrow> uint64 \<Rightarrow> uint64 list" where
  "page_range va e =
     (if va < e \<and> va < va + PGSIZE then va # page_range (va + PGSIZE) e
      else if va < e then [va]
      else [])"
  by pat_completeness auto
termination
  by (relation "measure (\<lambda>(va, e). unat e - unat va)") (auto simp: word_less_nat_alt)

declare page_range.simps [simp del]

text \<open>An entry of the local array \<^verbatim>\<open>dirty_pages\<close>: inode, physical address, file offset.\<close>

record dirty_page =
  d_ip :: iptr
  d_pa :: uint64
  d_offset :: uint64

text \<open>The first loop of \<^verbatim>\<open>sys_munmap\<close>: it appends an entry for a present page of a
  \<^verbatim>\<open>MAP_SHARED\<close> mapping while the array holds fewer than 16.\<close>

fun collect_dirty ::
  "mstate \<Rightarrow> vma \<Rightarrow> uint64 list \<Rightarrow> dirty_page list \<Rightarrow> dirty_page list" where
  "collect_dirty s v [] ds = ds"
| "collect_dirty s v (va # vas) ds =
     collect_dirty s v vas
       (case pagetable s va of
          None \<Rightarrow> ds
        | Some pa \<Rightarrow>
            if vflags v = MAP_SHARED \<and> length ds < 16
            then ds @ [\<lparr>d_ip = fip (files s (vf v)), d_pa = pa,
                        d_offset = voffset v + (va - vaddr v)\<rparr>]
            else ds)"

text \<open>Modelled from the spec: \<^verbatim>\<open>writei\<close> and \<^verbatim>\<open>readi\<close> (fs.c) are not among the sources.
  \<^verbatim>\<open>writei(ip, 0, src, off, n)\<close> copies \<open>n\<close> bytes from the kernel address \<open>src\<close> to the
  file at \<open>off\<close> and grows the file when the write ends beyond its size; it fails when
  \<open>off\<close> is beyond the size. \<^verbatim>\<open>readi(ip, 0, dst, off, n)\<close> copies the bytes of the file
  from \<open>off\<close>, as many as there are up to \<open>n\<close>.\<close>

definition writei :: "mstate \<Rightarrow> iptr \<Rightarrow> uint64 \<Rightarrow> uint64 \<Rightarrow> uint64 \<Rightarrow> mstate" where
  "writei s ip src off n =
     (let old = idata s ip; page = mem s src; fsz = isize s ip in
      if unat off > unat fsz then s
      else s\<lparr>idata := (idata s)
                 (ip := (\<lambda>j. if unat off \<le> j \<and> j < unat off + unat n
                              then page (j - unat off) else old j)),
              isize := (isize s)
                 (ip := (if unat off + unat n > unat fsz
                         then of_nat (unat off + unat n) else fsz))\<rparr>)"

definition readi :: "mstate \<Rightarrow> iptr \<Rightarrow> uint64 \<Rightarrow> uint64 \<Rightarrow> uint64 \<Rightarrow> mstate" where
  "readi s ip dst off n =
     (let old = mem s dst; bytes = idata s ip; fsz = isize s ip in
      s\<lparr>mem := (mem s)
          (dst := (\<lambda>j. if j < unat n \<and> unat off + j < unat fsz
                       then bytes (unat off + j) else old j))\<rparr>)"

text \<open>The body of the write-back loop for one entry, and the loop.\<close>

definition writeback_one :: "mstate \<Rightarrow> dirty_page \<Rightarrow> mstate \<times> vm_call list" where
  "writeback_one s d =
     (let file_end = (ucast (isize s (d_ip d)) :: uint64);
          bytes_to_write =
            (if d_offset d < file_end
             then (if file_end - d_offset d > PGSIZE then PGSIZE else file_end - d_offset d)
             else 0)
      in if bytes_to_write > 0
         then (writei s (d_ip d) (d_pa d) (d_offset d) bytes_to_write,
               [V_ilock (d_ip d), V_writei (d_ip d) (d_pa d) (d_offset d) bytes_to_write,
                V_iunlock (d_ip d)])
         else (s, [V_ilock (d_ip d), V_iunlock (d_ip d)]))"

fun writeback :: "mstate \<Rightarrow> dirty_page list \<Rightarrow> mstate \<times> vm_call list" where
  "writeback s [] = (s, [])"
| "writeback s (d # ds) =
     (case writeback_one s d of (s1, c1) \<Rightarrow>
        (case writeback s1 ds of (s2, c2) \<Rightarrow> (s2, c1 @ c2)))"

text \<open>The unmap loop: \<^verbatim>\<open>uvmunmap(pagetable, va, 1, 1)\<close> removes the mapping of a present
  page and frees its frame; \<open>None\<close> is a panic of \<^verbatim>\<open>kfree\<close>.\<close>

fun unmap_pages ::
  "memlayout \<Rightarrow> mstate \<Rightarrow> uint64 list \<Rightarrow> (mstate \<times> vm_call list) option" where
  "unmap_pages L s [] = Some (s, [])"
| "unmap_pages L s (va # vas) =
     (case pagetable s va of
        None \<Rightarrow> unmap_pages L s vas
      | Some pa \<Rightarrow>
          (case kfree L (mkm s) pa of
             None \<Rightarrow> None
           | Some k \<Rightarrow>
               (case unmap_pages L (s\<lparr>pagetable := (pagetable s)(va := None), mkm := k\<rparr>) vas of
                  None \<Rightarrow> None
                | Some (s', cs) \<Rightarrow> Some (s', V_uvmunmap va # cs))))"

text \<open>The write-back of \<^verbatim>\<open>sys_munmap\<close>: a transaction around the loop when the array
  is not empty.\<close>

definition munmap_writeback :: "mstate \<Rightarrow> dirty_page list \<Rightarrow> mstate \<times> vm_call list" where
  "munmap_writeback s dirty =
     (if length dirty > 0
      then (case writeback s dirty of (t, c) \<Rightarrow> (t, [V_begin_op] @ c @ [V_end_op]))
      else (s, []))"

text \<open>The end of \<^verbatim>\<open>sys_munmap\<close>: the slot \<open>i\<close>, which held \<open>v\<close>, is freed or trimmed.\<close>

definition munmap_update ::
  "nat \<Rightarrow> vma \<Rightarrow> uint64 \<Rightarrow> uint64 \<Rightarrow> mstate \<Rightarrow> mstate \<times> vm_call list" where
  "munmap_update i v a n s =
     (if a = vaddr v \<and> n = vlen v then
        (s\<lparr>vmas := (vmas s)[i := v\<lparr>vused := False\<rparr>],
           files := (files s)
             (vf v := (files s (vf v))\<lparr>fref := fref (files s (vf v)) - 1\<rparr>)\<rparr>,
         [V_fileclose (vf v)])
      else if a = vaddr v then
        (s\<lparr>vmas := (vmas s)
             [i := v\<lparr>vaddr := vaddr v + n, vlen := vlen v - n, voffset := voffset v + n\<rparr>]\<rparr>,
         [])
      else
        (s\<lparr>vmas := (vmas s)[i := v\<lparr>vlen := vlen v - n\<rparr>]\<rparr>, []))"

text \<open>\<^verbatim>\<open>sys_munmap(addr, len)\<close>: the return value, the new state and the calls made;
  \<open>None\<close> is a panic of \<^verbatim>\<open>kfree\<close>.\<close>

definition sys_munmap ::
  "memlayout \<Rightarrow> mstate \<Rightarrow> uint64 \<Rightarrow> uint64 \<Rightarrow> (uint64 \<times> mstate \<times> vm_call list) option" where
  "sys_munmap L s a n =
     (case first_index (\<lambda>v. vused v \<and> a \<ge> vaddr v \<and> a < vaddr v + vlen v) (vmas s) of
        None \<Rightarrow> Some (- 1, s, [])
      | Some i \<Rightarrow>
          let v = vmas s ! i in
          if a \<noteq> vaddr v \<and> a + n \<noteq> vaddr v + vlen v then Some (- 1, s, [])
          else
            let pages = page_range (PGROUNDDOWN a) (PGROUNDUP (a + n));
                dirty = collect_dirty s v pages []
            in case munmap_writeback s dirty of (s1, c1) \<Rightarrow>
                 (case unmap_pages L s1 pages of
                    None \<Rightarrow> None
                  | Some (s2, c2) \<Rightarrow>
                      (case munmap_update i v a n s2 of (s3, c3) \<Rightarrow>
                         Some (0, s3, c1 @ c2 @ c3))))"

text \<open>Modelled from the spec: the bits of a page-table entry (riscv.h is not among the
  sources), with the values of xv6.\<close>

definition PTE_R :: uint32 where
  "PTE_R = 0x2"

definition PTE_W :: uint32 where
  "PTE_W = 0x4"

definition PTE_X :: uint32 where
  "PTE_X = 0x8"

definition PTE_U :: uint32 where
  "PTE_U = 0x10"

text \<open>\<^verbatim>\<open>handle_mmap_fault(fault_va)\<close>. \<open>mp_ok\<close> says whether \<^verbatim>\<open>mappages\<close> succeeds; \<open>None\<close>
  is a panic of \<^verbatim>\<open>kfree\<close>. The offset parameter of \<^verbatim>\<open>readi\<close> is a \<^verbatim>\<open>uint\<close>, so the call
  passes the low 32 bits of \<^verbatim>\<open>file_offset\<close>. \<^verbatim>\<open>readi\<close> to a kernel address does not
  return a negative number, so the branch \<^verbatim>\<open>n < 0\<close> is not taken.\<close>

definition handle_mmap_fault ::
  "memlayout \<Rightarrow> bool \<Rightarrow> mstate \<Rightarrow> uint64 \<Rightarrow> (int \<times> mstate \<times> vm_call list) option" where
  "handle_mmap_fault L mp_ok s fault_va =
     (case first_index (\<lambda>v. vused v \<and> fault_va \<ge> vaddr v \<and> fault_va < vaddr v + vlen v)
             (vmas s) of
        None \<Rightarrow> Some (- 1, s, [])
      | Some i \<Rightarrow>
          let v = vmas s ! i; page_start = PGROUNDDOWN fault_va in
          if pagetable s page_start \<noteq> None then Some (- 1, s, [])
          else case kalloc (mkm s) of (pa, k1) \<Rightarrow>
            if pa = 0 then Some (- 1, s, [])
            else
              let s1 = s\<lparr>mkm := k1, mem := (mem s)(pa := (\<lambda>j. 0))\<rparr>;
                  file_offset = voffset v + (page_start - vaddr v);
                  off = ucast (ucast file_offset :: uint32);
                  ip = fip (files s (vf v));
                  s2 = readi s1 ip pa off PGSIZE;
                  c = [V_ilock ip, V_readi ip pa off PGSIZE, V_iunlock ip];
                  perm = PTE_U OR (if vprot v AND PROT_READ \<noteq> 0 then PTE_R else 0)
                           OR (if vprot v AND PROT_WRITE \<noteq> 0 then PTE_W else 0)
                           OR (if vprot v AND PROT_EXEC \<noteq> 0 then PTE_X else 0)
              in if \<not> mp_ok then
                   map_option (\<lambda>k. (- 1, s2\<lparr>mkm := k\<rparr>, c)) (kfree L (mkm s2) pa)
                 else Some (0, s2\<lparr>pagetable := (pagetable s2)(page_start := Some pa)\<rparr>,
                            c @ [V_mappages page_start pa perm]))"

text \<open>A store of one byte by the user program through a present page (\<open>None\<close> where the
  page is not present and the store faults).\<close>

definition user_store :: "mstate \<Rightarrow> uint64 \<Rightarrow> uint8 \<Rightarrow> mstate option" where
  "user_store s va b =
     (case pagetable s (PGROUNDDOWN va) of
        None \<Rightarrow> None
      | Some pa \<Rightarrow>
          let page = mem s pa in
          Some (s\<lparr>mem := (mem s)(pa := page(unat (va - PGROUNDDOWN va) := b))\<rparr>))"

text \<open>The invariant of the VMA table that the spec states: the used slots are page
  aligned, lie below \<^verbatim>\<open>TRAPFRAME\<close> and do not overlap.\<close>

definition vma_ok :: "vmconst \<Rightarrow> vma \<Rightarrow> bool" where
  "vma_ok C v =
     (vaddr v mod PGSIZE = 0 \<and> vlen v mod PGSIZE = 0
      \<and> unat (vaddr v) + unat (vlen v) \<le> unat (TRAPFRAME C))"

definition vma_disjoint :: "vma \<Rightarrow> vma \<Rightarrow> bool" where
  "vma_disjoint v w =
     (unat (vaddr v) + unat (vlen v) \<le> unat (vaddr w)
      \<or> unat (vaddr w) + unat (vlen w) \<le> unat (vaddr v))"

fun vmas_disjoint :: "vma list \<Rightarrow> bool" where
  "vmas_disjoint [] = True"
| "vmas_disjoint (v # vs) =
     ((vused v \<longrightarrow> list_all (\<lambda>w. vused w \<longrightarrow> vma_disjoint v w) vs) \<and> vmas_disjoint vs)"

definition vmas_inv :: "vmconst \<Rightarrow> vma list \<Rightarrow> bool" where
  "vmas_inv C vs = (list_all (\<lambda>v. vused v \<longrightarrow> vma_ok C v) vs \<and> vmas_disjoint vs)"

text \<open>What a list of calls writes to files, in order.\<close>

fun writes_of :: "vm_call list \<Rightarrow> (iptr \<times> uint64 \<times> uint64 \<times> uint64) list" where
  "writes_of [] = []"
| "writes_of (V_writei ip src off n # cs) = (ip, src, off, n) # writes_of cs"
| "writes_of (c # cs) = writes_of cs"

text \<open>A list of calls keeps to the order of \<^verbatim>\<open>sys_munmap\<close>: at most one transaction,
  every \<^verbatim>\<open>writei\<close> inside it, every \<^verbatim>\<open>uvmunmap\<close> outside and no transaction after one. The
  first argument says where the scan is: 0 before, 1 inside, 2 after the transaction or
  the first \<^verbatim>\<open>uvmunmap\<close>.\<close>

fun txn_scan :: "nat \<Rightarrow> vm_call list \<Rightarrow> bool" where
  "txn_scan st [] = (st \<noteq> 1)"
| "txn_scan st (V_begin_op # cs) = (st = 0 \<and> txn_scan 1 cs)"
| "txn_scan st (V_end_op # cs) = (st = 1 \<and> txn_scan 2 cs)"
| "txn_scan st (V_writei ip src off n # cs) = (st = 1 \<and> txn_scan st cs)"
| "txn_scan st (V_uvmunmap va # cs) = (st \<noteq> 1 \<and> txn_scan 2 cs)"
| "txn_scan st (c # cs) = txn_scan st cs"

definition one_transaction :: "vm_call list \<Rightarrow> bool" where
  "one_transaction cs = txn_scan 0 cs"

text \<open>The present pages among a list of pages, with their frames.\<close>

fun present_pages :: "(uint64 \<Rightarrow> uint64 option) \<Rightarrow> uint64 list \<Rightarrow> (uint64 \<times> uint64) list" where
  "present_pages pt [] = []"
| "present_pages pt (va # vas) =
     (case pt va of None \<Rightarrow> present_pages pt vas | Some pa \<Rightarrow> (va, pa) # present_pages pt vas)"

text \<open>The file offset of the page at \<open>va\<close> of a mapping, and the number of bytes from
  offset \<open>off\<close> up to the end of a file of size \<open>fsz\<close>, at most a page.\<close>

definition wb_offset :: "vma \<Rightarrow> uint64 \<Rightarrow> uint64" where
  "wb_offset v va = voffset v + (va - vaddr v)"

definition wb_bytes :: "uint32 \<Rightarrow> uint64 \<Rightarrow> uint64" where
  "wb_bytes fsz off = (if ucast fsz - off > PGSIZE then PGSIZE else ucast fsz - off)"

text \<open>The writes of the write-back loop: one for every entry whose offset is inside the
  file, from the frame to that offset, of the bytes up to the end of the file and at
  most a page.\<close>

definition wb_write :: "(iptr \<Rightarrow> uint32) \<Rightarrow> dirty_page \<Rightarrow> (iptr \<times> uint64 \<times> uint64 \<times> uint64) list" where
  "wb_write fsz d =
     (if d_offset d < ucast (fsz (d_ip d))
      then [(d_ip d, d_pa d, d_offset d, wb_bytes (fsz (d_ip d)) (d_offset d))] else [])"

text \<open>The entry of \<^verbatim>\<open>dirty_pages\<close> for a present page of the mapping \<open>v\<close>.\<close>

definition dirty_entry :: "mstate \<Rightarrow> vma \<Rightarrow> uint64 \<times> uint64 \<Rightarrow> dirty_page" where
  "dirty_entry s v p =
     \<lparr>d_ip = fip (files s (vf v)), d_pa = snd p, d_offset = wb_offset v (fst p)\<rparr>"

text \<open>The addresses that \<^verbatim>\<open>kfree\<close> accepts.\<close>

definition kfree_ok :: "memlayout \<Rightarrow> uint64 \<Rightarrow> bool" where
  "kfree_ok L pa = (pa mod PGSIZE = 0 \<and> kend L \<le> pa \<and> pa < PHYSTOP L)"

text \<open>The user program stores bytes at consecutive addresses.\<close>

fun user_write :: "mstate \<Rightarrow> uint64 \<Rightarrow> uint8 list \<Rightarrow> mstate option" where
  "user_write s va [] = Some s"
| "user_write s va (b # bs) =
     (case user_store s va b of None \<Rightarrow> None | Some s' \<Rightarrow> user_write s' (va + 1) bs)"

section \<open>Concrete inputs\<close>

text \<open>A memory layout as in xv6 for qemu (the kernel ends at 0x80000000 + something below
  the first free page, 128 MiB of RAM), an allocator with 64 free pages, and UDP
  datagrams for port 2000 whose one payload byte numbers them.\<close>

definition demo_layout :: memlayout where
  "demo_layout = \<lparr>kend = 0x80000000, PHYSTOP = 0x88000000\<rparr>"

definition demo_kmem :: kmem where
  "demo_kmem =
     \<lparr>freelist = 0x80100000, nxt = (\<lambda>a. if a = 0x8013F000 then 0 else a + 0x1000)\<rparr>"

definition demo_frame :: "uint8 \<Rightarrow> frame" where
  "demo_frame i = \<lparr>ip_p = 17, ip_src = 0x0A000202, udp_sport = 2345, udp_dport = 2000,
                   udp_ulen = 9, payload = [i]\<rparr>"

definition demo_rx :: "uint8 \<Rightarrow> netop" where
  "demo_rx i = Rx (0x80200000 + 0x1000 * ucast i) (demo_frame i) 43"

text \<open>\<^verbatim>\<open>bind(2000)\<close>, then twenty datagrams and no \<^verbatim>\<open>recv\<close>.\<close>

definition demo_flood :: "netop list" where
  "demo_flood =
     [Bind 2000, demo_rx 0, demo_rx 1, demo_rx 2, demo_rx 3, demo_rx 4, demo_rx 5, demo_rx 6,
      demo_rx 7, demo_rx 8, demo_rx 9, demo_rx 10, demo_rx 11, demo_rx 12, demo_rx 13,
      demo_rx 14, demo_rx 15, demo_rx 16, demo_rx 17, demo_rx 18, demo_rx 19]"

text \<open>A file \<^verbatim>\<open>a\<close> (inode 10, one link) and a directory on the same device in which the name
  \<^verbatim>\<open>b\<close> is already taken, so that \<^verbatim>\<open>dirlink\<close> fails.\<close>

definition demo_inodes :: "iptr \<Rightarrow> inode" where
  "demo_inodes p =
     (if p = 1 then \<lparr>itype = 2, nlink = 1, idev = 1, inum = 10\<rparr>
      else \<lparr>itype = 1, nlink = 1, idev = 1, inum = 1\<rparr>)"

definition demo_env :: fs_env where
  "demo_env =
     \<lparr>namei = (\<lambda>p. if p = ''a'' then Some 1 else None),
      nameiparent = (\<lambda>p. if p = ''b'' then Some (2, ''b'') else None),
      dirlink_ok = (\<lambda>dp name i. False)\<rparr>"

text \<open>A process of four pages with the 8-byte file \<^verbatim>\<open>ABCDEFGH\<close> open for reading and
  writing as descriptor 0, 16 descriptor and 16 VMA slots, nothing mapped; and the
  address-space constants of xv6 on Sv39 (\<^verbatim>\<open>MAXVA\<close> is 2^38, the trampoline is the page
  below it and the trapframe the page below that).\<close>

definition demo_vmconst :: vmconst where
  "demo_vmconst = \<lparr>MAXVA = 0x4000000000, TRAPFRAME = 0x3FFFFFE000\<rparr>"

definition demo_slot :: vma where
  "demo_slot = \<lparr>vused = False, vaddr = 0, vlen = 0, vprot = 0, vflags = 0, vf = 0, voffset = 0\<rparr>"

definition demo_proc :: mstate where
  "demo_proc =
     \<lparr>sz = 0x4000,
      ofile = [Some 0, None, None, None, None, None, None, None,
               None, None, None, None, None, None, None, None],
      vmas = [demo_slot, demo_slot, demo_slot, demo_slot, demo_slot, demo_slot, demo_slot,
              demo_slot, demo_slot, demo_slot, demo_slot, demo_slot, demo_slot, demo_slot,
              demo_slot, demo_slot],
      pagetable = (\<lambda>va. None),
      files = (\<lambda>f. \<lparr>readable = True, writable = True, fip = 1, fref = 1\<rparr>),
      isize = (\<lambda>ip. 8),
      idata = (\<lambda>ip j. if j < 8 then [0x41, 0x42, 0x43, 0x44, 0x45, 0x46, 0x47, 0x48] ! j else 0),
      mem = (\<lambda>pa j. 0),
      mkm = demo_kmem\<rparr>"

text \<open>A process with one shared mapping of 17 pages, all present, of a file of 17 pages
  of zeros; every byte of the pages is 1.\<close>

definition demo_big :: mstate where
  "demo_big =
     \<lparr>sz = 0x4000,
      ofile = [Some 0],
      vmas = [\<lparr>vused = True, vaddr = 0x3FFFFCD000, vlen = 0x11000, vprot = 3, vflags = 1,
               vf = 0, voffset = 0\<rparr>],
      pagetable = (\<lambda>va. if 0x3FFFFCD000 \<le> va \<and> va < 0x3FFFFDE000
                         then Some (0x80200000 + (va - 0x3FFFFCD000)) else None),
      files = (\<lambda>f. \<lparr>readable = True, writable = True, fip = 1, fref = 2\<rparr>),
      isize = (\<lambda>ip. 0x11000),
      idata = (\<lambda>ip j. 0),
      mem = (\<lambda>pa j. 1),
      mkm = demo_kmem\<rparr>"

section \<open>Properties of the page allocator\<close>

lemma is_chain_upd:
  "is_chain nx h xs \<Longrightarrow> a \<notin> set xs \<Longrightarrow> is_chain (nx(a := v)) h xs"
  by (induction xs arbitrary: h) auto

lemma kalloc_inv:
  assumes "kmem_inv k fl held" and "kalloc k = (p, k')"
  shows "(p = 0 \<and> k' = k \<and> fl = []) \<or>
         (p \<noteq> 0 \<and> p \<notin> set held \<and> (\<exists>rest. fl = p # rest \<and> kmem_inv k' rest (p # held)))"
proof (cases fl)
  case Nil
  with assms show ?thesis
    by (auto simp: kmem_inv_def kalloc_def Let_def)
next
  case (Cons x rest)
  with assms have hd: "freelist k = x" "x \<noteq> 0" "is_chain (nxt k) (nxt k x) rest"
    and dis: "x \<notin> set rest" "distinct rest" "x \<notin> set held" "set rest \<inter> set held = {}"
    and z: "0 \<notin> set held"
    by (auto simp: kmem_inv_def)
  from assms(2) hd have p: "p = x" and k': "k' = \<lparr>freelist = nxt k x, nxt = (nxt k)(x := junk5)\<rparr>"
    by (auto simp: kalloc_def Let_def)
  have "is_chain (nxt k') (freelist k') rest"
    using is_chain_upd [OF hd(3) dis(1)] by (simp add: k')
  with dis z hd p Cons show ?thesis
    by (auto simp: kmem_inv_def)
qed

lemma kfree_inv:
  assumes "kmem_inv k fl held" and "pa \<in> set held" and "kfree L k pa = Some k'"
  shows "kmem_inv k' (pa # fl) (removeAll pa held)"
proof -
  from assms(1,2) have nin: "pa \<notin> set fl" and nz: "pa \<noteq> 0"
    by (auto simp: kmem_inv_def)
  from assms(3) have k': "k' = \<lparr>freelist = pa, nxt = (nxt k)(pa := freelist k)\<rparr>"
    by (auto simp: kfree_def split: if_splits)
  from assms(1) have "is_chain (nxt k) (freelist k) fl"
    by (simp add: kmem_inv_def)
  from is_chain_upd [OF this nin] have "is_chain (nxt k') (nxt k' pa) fl"
    by (simp add: k')
  with assms(1) nin nz show ?thesis
    by (auto simp: kmem_inv_def k')
qed

lemma kmem_run_inv:
  "kmem_inv k fl held \<Longrightarrow> kmem_run L k ops = Some (evs, k') \<Longrightarrow> frees_held held evs \<Longrightarrow>
   no_alias held evs \<and> (\<exists>fl'. kmem_inv k' fl' (held_after held evs))"
proof (induction ops arbitrary: k fl held evs)
  case Nil
  then show ?case by auto
next
  case (Cons op ops)
  show ?case
  proof (cases op)
    case Kalloc
    obtain p k1 where ka: "kalloc k = (p, k1)" by (cases "kalloc k")
    let ?h = "if p = 0 then held else p # held"
    from Cons.prems(2) Kalloc ka obtain evs1 where
      r: "kmem_run L k1 ops = Some (evs1, k')" and e: "evs = Alloc p # evs1"
      by (auto split: option.splits)
    from kalloc_inv [OF Cons.prems(1) ka] Cons.prems(1)
    have fresh: "p \<notin> set held" and "\<exists>fl1. kmem_inv k1 fl1 ?h"
      by (auto simp: kmem_inv_def)
    then obtain fl1 where inv1: "kmem_inv k1 fl1 ?h" by blast
    from Cons.prems(3) e have "frees_held ?h evs1" by simp
    from Cons.IH [OF inv1 r this] fresh e show ?thesis by simp
  next
    case (Kfree pa)
    with Cons.prems(2) obtain k1 evs1 where kf: "kfree L k pa = Some k1"
      and r: "kmem_run L k1 ops = Some (evs1, k')" and e: "evs = Free pa # evs1"
      by (auto split: option.splits)
    from Cons.prems(3) e have h: "pa \<in> set held" and d: "frees_held (removeAll pa held) evs1"
      by simp_all
    from Cons.IH [OF kfree_inv [OF Cons.prems(1) h kf] r d] e show ?thesis by simp
  qed
qed

lemma kalloc_after_kfree:
  "kfree L k pa = Some k1 \<Longrightarrow>
   fst (kalloc k1) = pa \<and> (pa \<noteq> 0 \<longrightarrow> freelist (snd (kalloc k1)) = freelist k)"
  by (auto simp: kfree_def kalloc_def Let_def split: if_splits)

text \<open>C9, with the condition it needs. In an allocator whose free list is a chain of
  distinct frames ending in the null pointer, none of them in the hands of a caller,
  and for a sequence of calls in which every pointer passed to \<^verbatim>\<open>kfree\<close> is a frame
  that a caller holds at that moment: no \<^verbatim>\<open>kalloc\<close> of the sequence returns a frame that
  a caller still holds, so a frame that \<^verbatim>\<open>kalloc\<close> returned is not returned again before
  it is passed to \<^verbatim>\<open>kfree\<close>. And in the state reached, \<^verbatim>\<open>kalloc\<close> right after
  \<^verbatim>\<open>kfree(pa)\<close> returns \<open>pa\<close> and, \<open>pa\<close> not being the null pointer, puts the head of
  the free list back where it was (LIFO).\<close>

theorem kalloc_no_alias_when_frees_held:
  assumes "kmem_inv k fl held"
    and "kmem_run L k ops = Some (evs, k')"
    and "frees_held held evs"
  shows "no_alias held evs
       \<and> (\<forall>pa k1. kfree L k' pa = Some k1 \<longrightarrow>
             fst (kalloc k1) = pa \<and> (pa \<noteq> 0 \<longrightarrow> freelist (snd (kalloc k1)) = freelist k'))"
  using kmem_run_inv [OF assms] kalloc_after_kfree by blast

theorem kalloc_no_alias_when_frees_held_witness:
  "kmem_inv \<lparr>freelist = 0x80300000, nxt = (\<lambda>_. 0)\<rparr> [0x80300000] [0x80001000, 0x80002000]
   \<and> (\<exists>k'. kmem_run \<lparr>kend = 0x80000000, PHYSTOP = 0x88000000\<rparr>
              \<lparr>freelist = 0x80300000, nxt = (\<lambda>_. 0)\<rparr>
              [Kfree 0x80001000, Kfree 0x80002000, Kalloc, Kalloc, Kalloc, Kalloc]
            = Some ([Free 0x80001000, Free 0x80002000, Alloc 0x80002000, Alloc 0x80001000,
                     Alloc 0x80300000, Alloc 0], k')
        \<and> (\<exists>k1. kfree \<lparr>kend = 0x80000000, PHYSTOP = 0x88000000\<rparr> k' 0x80001000 = Some k1
               \<and> fst (kalloc k1) = 0x80001000))
   \<and> frees_held [0x80001000, 0x80002000]
       [Free 0x80001000, Free 0x80002000, Alloc 0x80002000, Alloc 0x80001000,
        Alloc 0x80300000, Alloc 0]
   \<and> no_alias [0x80001000, 0x80002000]
       [Free 0x80001000, Free 0x80002000, Alloc 0x80002000, Alloc 0x80001000,
        Alloc 0x80300000, Alloc 0]"
proof -
  let ?L = "\<lparr>kend = 0x80000000, PHYSTOP = 0x88000000 :: uint64\<rparr>"
  let ?k0 = "\<lparr>freelist = 0x80300000, nxt = (\<lambda>_. 0 :: uint64)\<rparr>"
  let ?evs = "[Free 0x80001000, Free 0x80002000, Alloc 0x80002000, Alloc 0x80001000,
               Alloc 0x80300000, Alloc 0]"
  have inv: "kmem_inv ?k0 [0x80300000] [0x80001000, 0x80002000]"
    by (simp add: kmem_inv_def)
  obtain k' where run: "kmem_run ?L ?k0
          [Kfree 0x80001000, Kfree 0x80002000, Kalloc, Kalloc, Kalloc, Kalloc] = Some (?evs, k')"
    by (simp add: kfree_def kalloc_def PGSIZE_def)
  have fh: "frees_held [0x80001000, 0x80002000] ?evs"
    by simp
  obtain k1 where kf: "kfree ?L k' 0x80001000 = Some k1"
    by (simp add: kfree_def PGSIZE_def)
  note inst = kalloc_no_alias_when_frees_held [OF inv run fh]
  from inst have na: "no_alias [0x80001000, 0x80002000] ?evs" by blast
  from inst kf have lifo: "fst (kalloc k1) = 0x80001000" by blast
  from inv run fh na kf lifo show ?thesis
    by blast
qed

text \<open>Without that condition the claim C9 fails, since \<^verbatim>\<open>kfree\<close> checks only the alignment
  and the range of its argument. With one free frame 0x80300000: \<^verbatim>\<open>kalloc\<close> returns it,
  the caller passes it to \<^verbatim>\<open>kfree\<close> twice (the second call makes the frame its own
  successor on the free list), and the next two calls of \<^verbatim>\<open>kalloc\<close> both return it, with
  no \<^verbatim>\<open>kfree\<close> between them.\<close>

theorem kalloc_alias_after_double_free_counterexample:
  "kmem_inv \<lparr>freelist = 0x80300000, nxt = (\<lambda>_. 0)\<rparr> [0x80300000] []
   \<and> map_option fst
       (kmem_run \<lparr>kend = 0x80000000, PHYSTOP = 0x88000000\<rparr>
          \<lparr>freelist = 0x80300000, nxt = (\<lambda>_. 0)\<rparr>
          [Kalloc, Kfree 0x80300000, Kfree 0x80300000, Kalloc, Kalloc])
     = Some [Alloc 0x80300000, Free 0x80300000, Free 0x80300000,
             Alloc 0x80300000, Alloc 0x80300000]
   \<and> \<not> no_alias [] [Alloc 0x80300000, Free 0x80300000, Free 0x80300000,
                      Alloc 0x80300000, Alloc 0x80300000]"
  by (simp add: kmem_inv_def kfree_def kalloc_def PGSIZE_def)

section \<open>Properties of the UDP sockets\<close>

lemma sock_index_Some:
  "sock_index P ss = Some i \<Longrightarrow> i < length ss \<and> P (ss ! i)"
proof (induction ss arbitrary: i)
  case Nil
  then show ?case by simp
next
  case (Cons s ss)
  then show ?case by (cases "P s") auto
qed

lemma queues_ok_update:
  assumes "queues_ok s" and "queue_len sk = int (length (queue sk))" and "length (queue sk) \<le> 16"
  shows "queues_ok (s\<lparr>sockets := (sockets s)[i := sk]\<rparr>)"
proof -
  have "set ((sockets s)[i := sk]) \<subseteq> insert sk (set (sockets s))"
    by (rule set_update_subset_insert)
  with assms show ?thesis
    unfolding queues_ok_def by auto
qed

lemma queues_ok_km: "queues_ok (s\<lparr>km := k\<rparr>) = queues_ok s"
  by (simp add: queues_ok_def)

lemma queues_ok_netinit: "queues_ok (netinit k)"
  by (simp add: queues_ok_def netinit_def)

lemma queues_ok_bind: "queues_ok s \<Longrightarrow> queues_ok (snd (sys_bind s p))"
  by (auto simp: sys_bind_def queues_ok_update split: option.splits)

lemma drop_buf_sockets: "drop_buf L s b = Some s' \<Longrightarrow> sockets s' = sockets s"
  by (auto simp: drop_buf_def)

lemma queues_ok_drop: "queues_ok s \<Longrightarrow> drop_buf L s b = Some s' \<Longrightarrow> queues_ok s'"
  by (auto simp: drop_buf_def queues_ok_km)

lemma queues_ok_ip_rx:
  assumes ok: "queues_ok s" and rx: "ip_rx L s b f n = Some s'"
  shows "queues_ok s'"
proof (cases "sockets s' = sockets s")
  case True
  with ok show ?thesis by (simp add: queues_ok_def)
next
  case False
  with rx obtain i pa k1 where
    i: "sock_index (bound_to (uint (udp_dport f))) (sockets s) = Some i"
    and small: "queue_len (sockets s ! i) < 16"
    and s': "s' = \<lparr>sockets = (sockets s)
                [i := (sockets s ! i)\<lparr>queue := queue (sockets s ! i) @
                   [\<lparr>pkt_page = pa, buf = b, len = n, src_ip = ip_src f,
                     src_port = udp_sport f, pkt_frame = f\<rparr>],
                   queue_len := queue_len (sockets s ! i) + 1\<rparr>], km = k1\<rparr>"
    by (auto simp: ip_rx_def Let_def QUEUE_MAX_def split: if_splits option.splits prod.splits
        dest: drop_buf_sockets)
  from sock_index_Some [OF i] have "sockets s ! i \<in> set (sockets s)" by simp
  with ok have len: "queue_len (sockets s ! i) = int (length (queue (sockets s ! i)))"
    by (simp add: queues_ok_def)
  have "queues_ok (s\<lparr>sockets := (sockets s)
                [i := (sockets s ! i)\<lparr>queue := queue (sockets s ! i) @
                   [\<lparr>pkt_page = pa, buf = b, len = n, src_ip = ip_src f,
                     src_port = udp_sport f, pkt_frame = f\<rparr>],
                   queue_len := queue_len (sockets s ! i) + 1\<rparr>]\<rparr>)"
    using ok len small by (intro queues_ok_update) auto
  then show ?thesis by (simp add: s' queues_ok_def)
qed

lemma sys_recv_cases:
  assumes "sys_recv L co s dport a1 a2 a3 maxlen = Some r"
  shows "r = Returns (- 1) [] s \<or> r = Sleeps s \<or>
         (\<exists>i pkt rest ret outs k.
            sock_index (bound_to dport) (sockets s) = Some i \<and>
            queue (sockets s ! i) = pkt # rest \<and>
            free_pkt L (km s) pkt = Some k \<and>
            r = Returns ret outs
                  \<lparr>sockets = (sockets s)
                     [i := (sockets s ! i)\<lparr>queue := rest,
                                            queue_len := queue_len (sockets s ! i) - 1\<rparr>],
                   km = k\<rparr>)"
  using assms
  by (auto simp: sys_recv_def Let_def split: if_splits option.splits list.splits prod.splits)

lemma queues_ok_recv:
  assumes ok: "queues_ok s" and rc: "sys_recv L co s dport a1 a2 a3 maxlen = Some r"
  shows "queues_ok (case r of Returns ret outs s' \<Rightarrow> s' | Sleeps s' \<Rightarrow> s')"
proof -
  from sys_recv_cases [OF rc] consider "r = Returns (- 1) [] s" | "r = Sleeps s"
    | i pkt rest ret outs k where
        "sock_index (bound_to dport) (sockets s) = Some i"
        "queue (sockets s ! i) = pkt # rest"
        "r = Returns ret outs
                  \<lparr>sockets = (sockets s)
                     [i := (sockets s ! i)\<lparr>queue := rest,
                                            queue_len := queue_len (sockets s ! i) - 1\<rparr>],
                   km = k\<rparr>"
    by blast
  then show ?thesis
  proof cases
    case 1
    with ok show ?thesis by simp
  next
    case 2
    with ok show ?thesis by simp
  next
    case 3
    from sock_index_Some [OF 3(1)] have "sockets s ! i \<in> set (sockets s)" by simp
    with ok have "queue_len (sockets s ! i) = int (length (queue (sockets s ! i)))"
      and "length (queue (sockets s ! i)) \<le> 16"
      by (simp_all add: queues_ok_def)
    with 3(2) have "queues_ok (s\<lparr>sockets := (sockets s)
                     [i := (sockets s ! i)\<lparr>queue := rest,
                                            queue_len := queue_len (sockets s ! i) - 1\<rparr>]\<rparr>)"
      using ok by (intro queues_ok_update) auto
    with 3(3) show ?thesis by (simp add: queues_ok_def)
  qed
qed

lemma queues_ok_exec:
  "queues_ok s \<Longrightarrow> net_exec L co s op = Some s' \<Longrightarrow> queues_ok s'"
proof (cases op)
  case (Bind p)
  assume "queues_ok s" "net_exec L co s op = Some s'"
  with Bind show ?thesis using queues_ok_bind [of s p] by auto
next
  case (Unbind p)
  assume "queues_ok s" "net_exec L co s op = Some s'"
  with Unbind show ?thesis by (auto simp: sys_unbind_def)
next
  case (Rx b f n)
  assume "queues_ok s" "net_exec L co s op = Some s'"
  with Rx show ?thesis using queues_ok_ip_rx by auto
next
  case (Recv dport a1 a2 a3 maxlen)
  assume ok: "queues_ok s" and ex: "net_exec L co s op = Some s'"
  from ex Recv obtain r where rc: "sys_recv L co s dport a1 a2 a3 maxlen = Some r"
    and s': "s' = (case r of Returns ret outs t \<Rightarrow> t | Sleeps t \<Rightarrow> t)"
    by (auto split: option.splits outcome.splits)
  from queues_ok_recv [OF ok rc] s' show ?thesis by simp
qed

lemma queues_ok_run:
  "queues_ok s \<Longrightarrow> net_run L co s ops = Some s' \<Longrightarrow> queues_ok s'"
proof (induction ops arbitrary: s)
  case Nil
  then show ?case by simp
next
  case (Cons op ops)
  from Cons.prems(2) obtain s1 where e: "net_exec L co s op = Some s1"
    and r: "net_run L co s1 ops = Some s'"
    by (auto split: option.splits)
  from queues_ok_exec [OF Cons.prems(1) e] r show ?case by (rule Cons.IH)
qed

lemma ip_rx_full:
  assumes "sock_index (bound_to (uint (udp_dport f))) (sockets s) = Some i"
    and "queue_len (sockets s ! i) \<ge> 16"
  shows "ip_rx L s b f n = drop_buf L s b"
  using assms by (simp add: ip_rx_def Let_def QUEUE_MAX_def)

lemma ip_rx_enqueue:
  assumes "ip_rx L s b f n = Some s'" and "sockets s' \<noteq> sockets s"
  shows "\<exists>i pa. sock_index (bound_to (uint (udp_dport f))) (sockets s) = Some i \<and>
           sockets s' = (sockets s)
             [i := (sockets s ! i)\<lparr>queue := queue (sockets s ! i) @
                   [\<lparr>pkt_page = pa, buf = b, len = n, src_ip = ip_src f,
                     src_port = udp_sport f, pkt_frame = f\<rparr>],
                   queue_len := queue_len (sockets s ! i) + 1\<rparr>]"
  using assms
  by (auto simp: ip_rx_def Let_def split: if_splits option.splits prod.splits
      dest: drop_buf_sockets)

lemma sys_recv_dequeue:
  assumes i: "sock_index (bound_to dport) (sockets s) = Some i"
    and q: "queue (sockets s ! i) = pkt # rest"
    and m: "0 \<le> maxlen"
    and rc: "sys_recv L co s dport a1 a2 a3 maxlen = Some r"
  shows "\<exists>ret outs s'. r = Returns ret outs s' \<and> queue (sockets s' ! i) = rest \<and>
           (ret \<noteq> - 1 \<longrightarrow>
              outs = [Out_ip a1 (src_ip pkt), Out_port a2 (src_port pkt),
                      Out_payload a3 (take (unat ret) (payload (pkt_frame pkt)))])"
proof -
  from sock_index_Some [OF i] have il: "i < length (sockets s)"
    and "bound_to dport (sockets s ! i)" by simp_all
  then have "0 \<le> dport" "dport \<le> 65535"
    using uint_lt2p [of "port (sockets s ! i)"] by (auto simp: bound_to_def)
  with i q m rc il show ?thesis
    by (auto simp: sys_recv_def Let_def split: if_splits option.splits)
qed

text \<open>C3. In every state the network layer reaches from \<^verbatim>\<open>netinit\<close> by \<^verbatim>\<open>bind\<close>,
  \<^verbatim>\<open>unbind\<close>, \<^verbatim>\<open>ip_rx\<close> and \<^verbatim>\<open>recv\<close>: every socket's queue holds as many packets as its
  counter says and at most 16; a packet for a socket whose queue holds 16 is dropped
  (\<^verbatim>\<open>ip_rx\<close> frees its buffer and returns, the sockets unchanged; \<^verbatim>\<open>ip_rx\<close> has no path
  that sleeps); a packet that \<^verbatim>\<open>ip_rx\<close> keeps is appended at the tail of the queue of the
  socket bound to its destination port; and \<^verbatim>\<open>recv\<close> on a non-empty queue takes the
  packet at the head and, when its copies succeed, hands out that packet's source
  address, source port and payload.\<close>

theorem udp_queue_bound_drop_fifo:
  assumes "net_run L co (netinit k0) ops = Some s"
  shows "queues_ok s
       \<and> (\<forall>b f n i. sock_index (bound_to (uint (udp_dport f))) (sockets s) = Some i
             \<and> length (queue (sockets s ! i)) = 16
             \<longrightarrow> ip_rx L s b f n = drop_buf L s b
                 \<and> (\<forall>s'. drop_buf L s b = Some s' \<longrightarrow>
                        sockets s' = sockets s \<and> kfree L (km s) b = Some (km s')))
       \<and> (\<forall>b f n s'. ip_rx L s b f n = Some s' \<and> sockets s' \<noteq> sockets s
             \<longrightarrow> (\<exists>i pa. sock_index (bound_to (uint (udp_dport f))) (sockets s) = Some i \<and>
                    sockets s' = (sockets s)
                      [i := (sockets s ! i)\<lparr>queue := queue (sockets s ! i) @
                         [\<lparr>pkt_page = pa, buf = b, len = n, src_ip = ip_src f,
                           src_port = udp_sport f, pkt_frame = f\<rparr>],
                         queue_len := queue_len (sockets s ! i) + 1\<rparr>]))
       \<and> (\<forall>dport a1 a2 a3 maxlen i pkt rest r.
             sock_index (bound_to dport) (sockets s) = Some i
             \<and> queue (sockets s ! i) = pkt # rest \<and> 0 \<le> maxlen
             \<and> sys_recv L co s dport a1 a2 a3 maxlen = Some r
             \<longrightarrow> (\<exists>ret outs s'. r = Returns ret outs s' \<and> queue (sockets s' ! i) = rest \<and>
                    (ret \<noteq> - 1 \<longrightarrow>
                       outs = [Out_ip a1 (src_ip pkt), Out_port a2 (src_port pkt),
                               Out_payload a3 (take (unat ret) (payload (pkt_frame pkt)))])))"
proof -
  have ok: "queues_ok s"
    using queues_ok_netinit assms by (rule queues_ok_run)
  have full: "ip_rx L s b f n = drop_buf L s b
        \<and> (\<forall>s'. drop_buf L s b = Some s' \<longrightarrow>
               sockets s' = sockets s \<and> kfree L (km s) b = Some (km s'))"
    if i: "sock_index (bound_to (uint (udp_dport f))) (sockets s) = Some i"
      and l: "length (queue (sockets s ! i)) = 16" for b f n i
  proof -
    from sock_index_Some [OF i] have "sockets s ! i \<in> set (sockets s)" by simp
    with ok l have "queue_len (sockets s ! i) \<ge> 16" by (simp add: queues_ok_def)
    from ip_rx_full [OF i this] show ?thesis by (auto simp: drop_buf_def)
  qed
  have deq: "\<exists>ret outs s'. r = Returns ret outs s' \<and> queue (sockets s' ! i) = rest \<and>
                    (ret \<noteq> - 1 \<longrightarrow>
                       outs = [Out_ip a1 (src_ip pkt), Out_port a2 (src_port pkt),
                               Out_payload a3 (take (unat ret) (payload (pkt_frame pkt)))])"
    if "sock_index (bound_to dport) (sockets s) = Some i
             \<and> queue (sockets s ! i) = pkt # rest \<and> 0 \<le> maxlen
             \<and> sys_recv L co s dport a1 a2 a3 maxlen = Some r"
    for dport a1 a2 a3 maxlen i pkt rest r
    using that by (elim conjE) (rule sys_recv_dequeue)
  have enq: "\<exists>i pa. sock_index (bound_to (uint (udp_dport f))) (sockets s) = Some i \<and>
                    sockets s' = (sockets s)
                      [i := (sockets s ! i)\<lparr>queue := queue (sockets s ! i) @
                         [\<lparr>pkt_page = pa, buf = b, len = n, src_ip = ip_src f,
                           src_port = udp_sport f, pkt_frame = f\<rparr>],
                         queue_len := queue_len (sockets s ! i) + 1\<rparr>]"
    if "ip_rx L s b f n = Some s' \<and> sockets s' \<noteq> sockets s" for b f n s'
    using that by (elim conjE) (rule ip_rx_enqueue)
  have full': "ip_rx L s b f n = drop_buf L s b
        \<and> (\<forall>s'. drop_buf L s b = Some s' \<longrightarrow>
               sockets s' = sockets s \<and> kfree L (km s) b = Some (km s'))"
    if "sock_index (bound_to (uint (udp_dport f))) (sockets s) = Some i
             \<and> length (queue (sockets s ! i)) = 16" for b f n i
    using that by (elim conjE) (rule full)
  show ?thesis
    apply (intro conjI)
       apply (rule ok)
      apply (intro allI impI, erule full')
     apply (intro allI impI, erule enq)
    apply (intro allI impI, erule deq)
    done
qed

lemmas net_eval = demo_layout_def demo_kmem_def demo_frame_def demo_rx_def demo_flood_def
  sys_bind_def sys_unbind_def bound_to_def ip_rx_def drop_buf_def kfree_def kalloc_def Let_def
  PGSIZE_def IPPROTO_UDP_def sizeof_eth_def sizeof_ip_def sizeof_udp_def QUEUE_MAX_def

lemma netinit_table:
  "netinit k =
     \<lparr>sockets = [e, e, e, e, e, e, e, e, e, e, e, e, e, e, e, e], km = k\<rparr>"
  if "e = \<lparr>used = False, port = 0, queue = [], queue_len = 0\<rparr>"
  by (simp add: netinit_def SOCK_MAX_def eval_nat_numeral that)

theorem udp_queue_bound_drop_fifo_witness:
  "\<exists>s. net_run demo_layout (\<lambda>a n. True) (netinit demo_kmem) demo_flood = Some s
     \<and> queues_ok s
     \<and> map (\<lambda>p. payload (pkt_frame p)) (queue (sockets s ! 0)) =
         [[0], [1], [2], [3], [4], [5], [6], [7], [8], [9], [10], [11], [12], [13], [14], [15]]
     \<and> ip_rx demo_layout s 0x80300000 (demo_frame 20) 43 = drop_buf demo_layout s 0x80300000
     \<and> (\<exists>s'. sys_recv demo_layout (\<lambda>a n. True) s 2000 0x1000 0x1008 0x1010 100 =
               Some (Returns 1 [Out_ip 0x1000 0x0A000202, Out_port 0x1008 2345,
                                Out_payload 0x1010 [0]] s')
            \<and> map (\<lambda>p. payload (pkt_frame p)) (queue (sockets s' ! 0)) =
                [[1], [2], [3], [4], [5], [6], [7], [8], [9], [10], [11], [12], [13], [14], [15]])"
proof -
  obtain s where run: "net_run demo_layout (\<lambda>a n. True) (netinit demo_kmem) demo_flood = Some s"
    and idx: "sock_index (bound_to (uint (udp_dport (demo_frame 20)))) (sockets s) = Some 0"
    and full: "length (queue (sockets s ! 0)) = 16"
    and order: "map (\<lambda>p. payload (pkt_frame p)) (queue (sockets s ! 0)) =
         [[0], [1], [2], [3], [4], [5], [6], [7], [8], [9], [10], [11], [12], [13], [14], [15]]"
    and recv: "\<exists>s'. sys_recv demo_layout (\<lambda>a n. True) s 2000 0x1000 0x1008 0x1010 100 =
               Some (Returns 1 [Out_ip 0x1000 0x0A000202, Out_port 0x1008 2345,
                                Out_payload 0x1010 [0]] s')
            \<and> map (\<lambda>p. payload (pkt_frame p)) (queue (sockets s' ! 0)) =
                [[1], [2], [3], [4], [5], [6], [7], [8], [9], [10], [11], [12], [13], [14], [15]]"
    by (simp add: net_eval netinit_table sys_recv_def free_pkt_def)
  note inst = udp_queue_bound_drop_fifo [OF run]
  from inst have ok: "queues_ok s" by (rule conjunct1)
  from inst idx full
  have drop: "ip_rx demo_layout s 0x80300000 (demo_frame 20) 43 = drop_buf demo_layout s 0x80300000"
    by blast
  show ?thesis
    by (rule exI [of _ s]) (intro conjI run ok order drop recv)
qed

text \<open>C10. When \<^verbatim>\<open>recv\<close> finds a packet at the head of the queue and one of its three
  \<^verbatim>\<open>copyout\<close>s fails, it returns -1, the packet is off the queue (the counter one less)
  and both its pages, the buffer and the entry, went through \<^verbatim>\<open>kfree\<close>: the entry's
  page is the head of the free list and the buffer the next one. Nothing puts the
  packet back.\<close>

theorem recv_copyout_failure_loses_packet:
  assumes i: "sock_index (bound_to dport) (sockets s) = Some i"
    and q: "queue (sockets s ! i) = pkt # rest"
    and m: "0 \<le> maxlen"
    and n: "n = word_of_int (if uint (udp_ulen (pkt_frame pkt)) - 8 < maxlen
                             then uint (udp_ulen (pkt_frame pkt)) - 8 else maxlen)"
    and fail: "\<not> co a1 4 \<or> \<not> co a2 2 \<or> \<not> co a3 n"
    and f1: "kfree L (km s) (buf pkt) = Some k1"
    and f2: "kfree L k1 (pkt_page pkt) = Some k2"
  shows "\<exists>outs. sys_recv L co s dport a1 a2 a3 maxlen =
           Some (Returns (- 1) outs
             \<lparr>sockets = (sockets s)
                [i := (sockets s ! i)\<lparr>queue := rest,
                                       queue_len := queue_len (sockets s ! i) - 1\<rparr>],
              km = k2\<rparr>)
         \<and> freelist k2 = pkt_page pkt \<and> nxt k2 (pkt_page pkt) = buf pkt"
proof -
  from sock_index_Some [OF i] have "bound_to dport (sockets s ! i)" by simp
  then have d: "0 \<le> dport" "dport \<le> 65535"
    using uint_lt2p [of "port (sockets s ! i)"] by (auto simp: bound_to_def)
  have fl: "freelist k2 = pkt_page pkt \<and> nxt k2 (pkt_page pkt) = buf pkt"
    using f1 f2 by (auto simp: kfree_def split: if_splits)
  from i q m n fail f1 f2 d have "\<exists>outs. sys_recv L co s dport a1 a2 a3 maxlen =
           Some (Returns (- 1) outs
             \<lparr>sockets = (sockets s)
                [i := (sockets s ! i)\<lparr>queue := rest,
                                       queue_len := queue_len (sockets s ! i) - 1\<rparr>],
              km = k2\<rparr>)"
    by (auto simp: sys_recv_def Let_def free_pkt_def)
  with fl show ?thesis by blast
qed

theorem recv_copyout_failure_loses_packet_witness:
  "\<exists>s pkt rest k1 k2.
     net_run demo_layout (\<lambda>a n. a \<noteq> 0) (netinit demo_kmem) [Bind 2000, demo_rx 0, demo_rx 1] = Some s
     \<and> sock_index (bound_to 2000) (sockets s) = Some 0
     \<and> queue (sockets s ! 0) = pkt # rest
     \<and> kfree demo_layout (km s) (buf pkt) = Some k1
     \<and> kfree demo_layout k1 (pkt_page pkt) = Some k2
     \<and> (\<exists>outs. sys_recv demo_layout (\<lambda>a n. a \<noteq> 0) s 2000 0x1000 0 0x1010 100 =
           Some (Returns (- 1) outs
             \<lparr>sockets = (sockets s)
                [0 := (sockets s ! 0)\<lparr>queue := rest,
                                       queue_len := queue_len (sockets s ! 0) - 1\<rparr>],
              km = k2\<rparr>))
     \<and> map (\<lambda>p. payload (pkt_frame p)) rest = [[1]]
     \<and> freelist k2 = 0x80100000"
proof -
  obtain s pkt rest k1 k2 where
    run: "net_run demo_layout (\<lambda>a n. a \<noteq> 0) (netinit demo_kmem) [Bind 2000, demo_rx 0, demo_rx 1] = Some s"
    and idx: "sock_index (bound_to 2000) (sockets s) = Some 0"
    and q: "queue (sockets s ! 0) = pkt # rest"
    and f1: "kfree demo_layout (km s) (buf pkt) = Some k1"
    and f2: "kfree demo_layout k1 (pkt_page pkt) = Some k2"
    and rest: "map (\<lambda>p. payload (pkt_frame p)) rest = [[1]]"
    and pg: "pkt_page pkt = 0x80100000"
    and ul: "udp_ulen (pkt_frame pkt) = 9"
    by (simp add: net_eval netinit_table)
  have n: "(1 :: uint64) = word_of_int (if uint (udp_ulen (pkt_frame pkt)) - 8 < 100
                             then uint (udp_ulen (pkt_frame pkt)) - 8 else 100)"
    by (simp add: ul)
  have fail: "\<not> (0x1000 :: uint64) \<noteq> 0 \<or> \<not> (0 :: uint64) \<noteq> 0 \<or> \<not> (0x1010 :: uint64) \<noteq> 0"
    by simp
  from recv_copyout_failure_loses_packet
         [of 2000 s 0 pkt rest 100 1 "\<lambda>a n. a \<noteq> 0" "0x1000" 0 "0x1010" demo_layout k1 k2,
          OF idx q _ n fail f1 f2]
  have "(\<exists>outs. sys_recv demo_layout (\<lambda>a n. a \<noteq> 0) s 2000 0x1000 0 0x1010 100 =
           Some (Returns (- 1) outs
             \<lparr>sockets = (sockets s)
                [0 := (sockets s ! 0)\<lparr>queue := rest,
                                       queue_len := queue_len (sockets s ! 0) - 1\<rparr>],
              km = k2\<rparr>))
         \<and> freelist k2 = pkt_page pkt"
    by simp
  with run idx q f1 f2 rest pg show ?thesis
    by (intro exI [of _ s] exI [of _ pkt] exI [of _ rest] exI [of _ k1] exI [of _ k2]) simp
qed

text \<open>C7. \<^verbatim>\<open>sys_unbind\<close> returns 0 and changes nothing: a packet that arrives after it,
  and a \<^verbatim>\<open>recv\<close> after it, are handled as if it had not been called.\<close>

theorem unbind_is_a_no_op:
  "sys_unbind s p = (0, s)
   \<and> ip_rx L (snd (sys_unbind s p)) b f n = ip_rx L s b f n
   \<and> sys_recv L co (snd (sys_unbind s p)) dport a1 a2 a3 maxlen
       = sys_recv L co s dport a1 a2 a3 maxlen"
  by (simp add: sys_unbind_def)

text \<open>After \<^verbatim>\<open>bind(2000)\<close>, a queued datagram and \<^verbatim>\<open>unbind(2000)\<close> the socket is still bound
  to port 2000, the datagram is still queued, and the next datagram for port 2000 is
  queued behind it, not dropped.\<close>

theorem unbind_is_a_no_op_witness:
  "\<exists>s s'. net_run demo_layout (\<lambda>a n. True) (netinit demo_kmem) [Bind 2000, demo_rx 0] = Some s
        \<and> sys_unbind s 2000 = (0, s)
        \<and> used (sockets s ! 0) \<and> port (sockets s ! 0) = 2000
        \<and> map (\<lambda>p. payload (pkt_frame p)) (queue (sockets s ! 0)) = [[0]]
        \<and> ip_rx demo_layout (snd (sys_unbind s 2000)) 0x80201000 (demo_frame 1) 43 = Some s'
        \<and> map (\<lambda>p. payload (pkt_frame p)) (queue (sockets s' ! 0)) = [[0], [1]]"
proof -
  obtain s s' where run: "net_run demo_layout (\<lambda>a n. True) (netinit demo_kmem) [Bind 2000, demo_rx 0] = Some s"
    and u: "used (sockets s ! 0)" "port (sockets s ! 0) = 2000"
    and q: "map (\<lambda>p. payload (pkt_frame p)) (queue (sockets s ! 0)) = [[0]]"
    and rx: "ip_rx demo_layout s 0x80201000 (demo_frame 1) 43 = Some s'"
    and q': "map (\<lambda>p. payload (pkt_frame p)) (queue (sockets s' ! 0)) = [[0], [1]]"
    by (simp add: net_eval netinit_table)
  from unbind_is_a_no_op [of s 2000 demo_layout "0x80201000" "demo_frame 1" 43]
  have nop: "sys_unbind s 2000 = (0, s)"
    and same: "ip_rx demo_layout (snd (sys_unbind s 2000)) 0x80201000 (demo_frame 1) 43
               = ip_rx demo_layout s 0x80201000 (demo_frame 1) 43"
    by simp_all
  show ?thesis
    apply (rule exI [of _ s], rule exI [of _ s'])
    using run nop u q q' rx same by simp
qed

section \<open>Properties of the transmit path\<close>

lemma n16: "(16::nat) = Suc (Suc (Suc (Suc (Suc (Suc (Suc (Suc (Suc (Suc (Suc (Suc (Suc (Suc (Suc (Suc 0)))))))))))))))"
  by (simp only: eval_nat_numeral BitM.simps)

lemma replicate_16: "replicate 16 x = [x, x, x, x, x, x, x, x, x, x, x, x, x, x, x, x]"
  by (simp only: n16 replicate.simps)

lemma rx_init_unroll: "rx_init 16 k = rx_init (Suc (Suc (Suc (Suc (Suc (Suc (Suc (Suc (Suc (Suc (Suc (Suc (Suc (Suc (Suc (Suc 0)))))))))))))))) k"
  by (simp only: n16)


lemma sends_17: "sends L ci s 17 = sends L ci s (Suc (Suc (Suc (Suc (Suc (Suc (Suc (Suc (Suc (Suc (Suc (Suc (Suc (Suc (Suc (Suc (Suc 0)))))))))))))))))"
  by (simp only: eval_nat_numeral BitM.simps)

lemmas nic_eval = e1000_init_def RX_RING_SIZE_def rx_init_unroll replicate_16 kalloc_def kfree_def
  demo_kmem_def demo_layout_def e1000_transmit_def sys_send_def Let_def TX_RING_SIZE_def
  E1000_TXD_STAT_DD_def E1000_TXD_CMD_EOP_def E1000_TXD_CMD_RS_def PGSIZE_def

lemma sends_16: "sends L ci s 16 = sends L ci s (Suc (Suc (Suc (Suc (Suc (Suc (Suc (Suc (Suc (Suc (Suc (Suc (Suc (Suc (Suc (Suc 0))))))))))))))))"
  by (simp only: n16)

lemma e1000_transmit_full:
  assumes "unat (TDT s) < TX_RING_SIZE" and "length (tx_ring s) = TX_RING_SIZE"
    and "length (tx_bufs s) = TX_RING_SIZE"
    and "status (tx_ring s ! unat (TDT s)) AND E1000_TXD_STAT_DD = 0"
  shows "e1000_transmit L s b n = Some (- 1, s)"
  using assms by (simp add: e1000_transmit_def Let_def)

text \<open>C2. On a full transmit ring (DD clear in the descriptor at the tail)
  \<^verbatim>\<open>e1000_transmit\<close> returns -1 and changes nothing, but a \<^verbatim>\<open>send\<close> call that gets that
  far (frame of at most a page, a page from \<^verbatim>\<open>kalloc\<close>, \<^verbatim>\<open>copyin\<close> done) returns 0: the
  rings are as they were, and the page for the frame has left the free list without
  being stashed in the ring.\<close>

theorem send_on_full_ring_returns_0:
  assumes "unat (TDT s) < TX_RING_SIZE" and "length (tx_ring s) = TX_RING_SIZE"
    and "length (tx_bufs s) = TX_RING_SIZE"
    and "status (tx_ring s ! unat (TDT s)) AND E1000_TXD_STAT_DD = 0"
    and "sint (word_of_int n + 14 + 20 + 8 :: uint32) \<le> 4096"
    and "kalloc (nkm s) = (b, k1)" and "b \<noteq> 0" and "ci bufaddr (word_of_int n)"
  shows "e1000_transmit L (s\<lparr>nkm := k1\<rparr>) b (sint (word_of_int n + 14 + 20 + 8 :: uint32))
           = Some (- 1, s\<lparr>nkm := k1\<rparr>)
       \<and> sys_send L ci s sport dst dport bufaddr n = Some (0, s\<lparr>nkm := k1\<rparr>)"
proof -
  have "e1000_transmit L (s\<lparr>nkm := k1\<rparr>) b (sint (word_of_int n + 14 + 20 + 8 :: uint32))
           = Some (- 1, s\<lparr>nkm := k1\<rparr>)"
    using assms(1-4) by (intro e1000_transmit_full) simp_all
  with assms(5-8) show ?thesis
    by (simp add: sys_send_def Let_def)
qed

text \<open>Seventeen \<^verbatim>\<open>send\<close> calls in a row on a freshly initialised driver whose device
  never sets DD: after sixteen calls every slot is filled and the tail is back at slot 0;
  the seventeenth call returns 0.\<close>

theorem send_on_full_ring_returns_0_witness:
  "\<exists>s0 s16 s17.
     e1000_init demo_kmem = Some s0
     \<and> sends demo_layout (\<lambda>a n. True) s0 16 = Some (replicate 16 0, s16)
     \<and> TDT s16 = 0
     \<and> map status (tx_ring s16) = replicate 16 0
     \<and> e1000_transmit demo_layout (s16\<lparr>nkm := nkm s17\<rparr>) 0x80120000 46 = Some (- 1, s17)
     \<and> sys_send demo_layout (\<lambda>a n. True) s16 2000 0x0A000202 2345 0x2000 4 = Some (0, s17)
     \<and> tx_ring s17 = tx_ring s16 \<and> tx_bufs s17 = tx_bufs s16 \<and> TDT s17 = TDT s16
     \<and> freelist (nkm s16) = 0x80120000 \<and> freelist (nkm s17) = 0x80121000
     \<and> 0x80120000 \<notin> set (tx_bufs s17)"
proof -
  obtain s0 s16 k1 where init: "e1000_init demo_kmem = Some s0"
    and run: "sends demo_layout (\<lambda>a n. True) s0 16 = Some (replicate 16 0, s16)"
    and tdt: "TDT s16 = 0"
    and st: "map status (tx_ring s16) = replicate 16 0"
    and len: "length (tx_ring s16) = 16" "length (tx_bufs s16) = 16"
    and full: "status (tx_ring s16 ! 0) AND 1 = 0"
    and ka: "kalloc (nkm s16) = (0x80120000, k1)"
    and fl: "freelist (nkm s16) = 0x80120000" "freelist k1 = 0x80121000"
    and stash: "0x80120000 \<notin> set (tx_bufs s16)"
    by (simp add: nic_eval sends_16)
  have "e1000_transmit demo_layout (s16\<lparr>nkm := k1\<rparr>) 0x80120000
            (sint (word_of_int 4 + 14 + 20 + 8 :: uint32)) = Some (- 1, s16\<lparr>nkm := k1\<rparr>)
       \<and> sys_send demo_layout (\<lambda>a n. True) s16 2000 0x0A000202 2345 0x2000 4
           = Some (0, s16\<lparr>nkm := k1\<rparr>)"
    by (rule send_on_full_ring_returns_0 [OF _ _ _ _ _ ka])
       (simp_all add: tdt len full TX_RING_SIZE_def E1000_TXD_STAT_DD_def)
  then have tx: "e1000_transmit demo_layout (s16\<lparr>nkm := k1\<rparr>) 0x80120000 46
                   = Some (- 1, s16\<lparr>nkm := k1\<rparr>)"
    and snd: "sys_send demo_layout (\<lambda>a n. True) s16 2000 0x0A000202 2345 0x2000 4
                   = Some (0, s16\<lparr>nkm := k1\<rparr>)"
    by simp_all
  show ?thesis
    apply (rule exI [of _ s0], rule exI [of _ s16], rule exI [of _ "s16\<lparr>nkm := k1\<rparr>"])
    using init run tdt st tx snd fl stash by simp
qed

section \<open>Properties of \<^verbatim>\<open>sys_link\<close>\<close>

lemma link_bad_restores:
  "link_bad (ino(ip := (ino ip)\<lparr>nlink := nlink (ino ip) + 1\<rparr>)) ip cs =
     (- 1, ino, cs @ [Ilock ip, Iupdate ip (ino ip), Iunlockput ip, End_op])"
  by (simp add: link_bad_def)

lemma sys_link_ret:
  "sys_link env ino old new = (r, ino', cs) \<Longrightarrow> r = 0 \<or> r = - 1"
  by (auto simp: sys_link_def link_bad_def Let_def
      split: option.splits if_splits prod.splits)

lemma sys_link_failure_restores:
  assumes "sys_link env ino old new = (r, ino', cs)" and "r \<noteq> 0"
  shows "ino' = ino"
  using assms
  by (auto simp: sys_link_def Let_def link_bad_restores
      split: option.splits if_splits prod.splits)

lemma sys_link_success:
  assumes "sys_link env ino old new = (0, ino', cs)"
  shows "\<exists>opath ip. old = Some opath \<and> namei env opath = Some ip \<and>
           ino' = ino(ip := (ino ip)\<lparr>nlink := nlink (ino ip) + 1\<rparr>)"
  using assms
  by (auto simp: sys_link_def link_bad_def Let_def
      split: option.splits if_splits prod.splits)

lemma sys_link_dir:
  assumes "old = Some opath" and "namei env opath = Some ip" and "itype (ino ip) = T_DIR"
  shows "fst (sys_link env ino old (Some npath)) = - 1"
  using assms by (simp add: sys_link_def)

lemma sys_link_cross_dev:
  assumes "namei env opath = Some ip" and "nameiparent env npath = Some (dp, name)"
    and "idev (ino dp) \<noteq> idev (ino ip)"
  shows "fst (sys_link env ino (Some opath) (Some npath)) = - 1"
  using assms by (auto simp: sys_link_def link_bad_def Let_def)

lemma sys_link_order:
  assumes "old = Some opath" and "namei env opath = Some ip"
  shows "dirlink_after_update ip (nlink (ino ip) + 1) False
           (snd (snd (sys_link env ino old new)))"
  using assms
  by (auto simp: sys_link_def link_bad_def Let_def split: option.splits)

text \<open>C6. For every call of \<^verbatim>\<open>link(old, new)\<close>: it returns 0 or -1; when it returns -1 every
  inode, that of \<open>old\<close> included, has the link count it had before the call; when it
  returns 0 the link count of \<open>old\<close>'s inode is one more; a directory as \<open>old\<close>, and a
  parent of \<open>new\<close> on another device, give -1; and wherever \<^verbatim>\<open>dirlink\<close> is called, the
  \<^verbatim>\<open>iupdate\<close> that wrote the incremented link count of \<open>old\<close>'s inode came before it.\<close>

theorem link_undoes_nlink_on_failure:
  assumes "sys_link env ino old new = (r, ino', cs)"
  shows "(r = 0 \<or> r = - 1)
       \<and> (r = - 1 \<longrightarrow> ino' = ino)
       \<and> (r = 0 \<longrightarrow> (\<exists>opath ip. old = Some opath \<and> namei env opath = Some ip \<and>
                        ino' = ino(ip := (ino ip)\<lparr>nlink := nlink (ino ip) + 1\<rparr>)))
       \<and> (\<forall>opath ip. old = Some opath \<and> namei env opath = Some ip \<and> new \<noteq> None
             \<and> itype (ino ip) = T_DIR \<longrightarrow> r = - 1)
       \<and> (\<forall>opath npath ip dp name. old = Some opath \<and> new = Some npath
             \<and> namei env opath = Some ip \<and> nameiparent env npath = Some (dp, name)
             \<and> idev (ino dp) \<noteq> idev (ino ip) \<longrightarrow> r = - 1)
       \<and> (\<forall>opath ip. old = Some opath \<and> namei env opath = Some ip
             \<longrightarrow> dirlink_after_update ip (nlink (ino ip) + 1) False cs)"
proof -
  have ret: "r = 0 \<or> r = - 1"
    using assms by (rule sys_link_ret)
  have fail: "r = - 1 \<longrightarrow> ino' = ino"
    using sys_link_failure_restores [OF assms] by auto
  have succ: "r = 0 \<longrightarrow> (\<exists>opath ip. old = Some opath \<and> namei env opath = Some ip \<and>
                        ino' = ino(ip := (ino ip)\<lparr>nlink := nlink (ino ip) + 1\<rparr>))"
    using sys_link_success [of env ino old new ino' cs] assms by auto
  have dir: "r = - 1"
    if "old = Some opath \<and> namei env opath = Some ip \<and> new \<noteq> None \<and> itype (ino ip) = T_DIR"
    for opath ip
  proof -
    from that obtain npath where "new = Some npath" by auto
    with that sys_link_dir [of old opath env ip ino npath] assms show ?thesis by auto
  qed
  have dev: "r = - 1"
    if "old = Some opath \<and> new = Some npath
             \<and> namei env opath = Some ip \<and> nameiparent env npath = Some (dp, name)
             \<and> idev (ino dp) \<noteq> idev (ino ip)"
    for opath npath ip dp name
    using that sys_link_cross_dev [of env opath ip npath dp name ino] assms by auto
  have ord: "dirlink_after_update ip (nlink (ino ip) + 1) False cs"
    if "old = Some opath \<and> namei env opath = Some ip" for opath ip
    using that sys_link_order [of old opath env ip ino new] assms by auto
  show ?thesis
    apply (intro conjI)
         apply (rule ret)
        apply (rule fail)
       apply (rule succ)
      apply (intro allI impI, erule dir)
     apply (intro allI impI, erule dev)
    apply (intro allI impI, erule ord)
    done
qed

theorem link_undoes_nlink_on_failure_witness:
  "\<exists>ino' cs. sys_link demo_env demo_inodes (Some ''a'') (Some ''b'') = (- 1, ino', cs)
     \<and> ino' = demo_inodes
     \<and> nlink (ino' 1) = 1
     \<and> cs = [Begin_op, Namei ''a'', Ilock 1,
             Iupdate 1 \<lparr>itype = 2, nlink = 2, idev = 1, inum = 10\<rparr>, Iunlock 1,
             Nameiparent ''b'', Ilock 2, Dirlink 2 ''b'' 10, Iunlockput 2,
             Ilock 1, Iupdate 1 \<lparr>itype = 2, nlink = 1, idev = 1, inum = 10\<rparr>,
             Iunlockput 1, End_op]
     \<and> dirlink_after_update 1 2 False cs"
proof -
  obtain ino' cs where
    run: "sys_link demo_env demo_inodes (Some ''a'') (Some ''b'') = (- 1, ino', cs)"
    and cs: "cs = [Begin_op, Namei ''a'', Ilock 1,
             Iupdate 1 \<lparr>itype = 2, nlink = 2, idev = 1, inum = 10\<rparr>, Iunlock 1,
             Nameiparent ''b'', Ilock 2, Dirlink 2 ''b'' 10, Iunlockput 2,
             Ilock 1, Iupdate 1 \<lparr>itype = 2, nlink = 1, idev = 1, inum = 10\<rparr>,
             Iunlockput 1, End_op]"
    by (simp add: sys_link_def link_bad_def demo_env_def demo_inodes_def T_DIR_def Let_def)
  note inst = link_undoes_nlink_on_failure [OF run]
  from inst have same: "ino' = demo_inodes" by simp
  have n: "nlink (demo_inodes 1) = 1" by (simp add: demo_inodes_def)
  from inst have "dirlink_after_update 1 (nlink (demo_inodes 1) + 1) False cs"
    by (simp add: demo_env_def)
  with n have ord: "dirlink_after_update 1 2 False cs" by simp
  show ?thesis
    apply (rule exI [of _ ino'], rule exI [of _ cs])
    using run same n cs ord by simp
qed

section \<open>Properties of \<^verbatim>\<open>sys_munmap\<close> and \<^verbatim>\<open>sys_mmap\<close>\<close>

lemma first_index_Some:
  "first_index P xs = Some i \<Longrightarrow> i < length xs \<and> P (xs ! i)"
proof (induction xs arbitrary: i)
  case Nil
  then show ?case by simp
next
  case (Cons x xs)
  then show ?case by (cases "P x") auto
qed

lemma unat_ucast_32_64: "unat (ucast (x :: uint32) :: uint64) = unat x"
  by (simp add: unsigned_ucast_eq take_bit_nat_eq_self_iff)
     (use unsigned_less [of x, where 'a = nat] in simp)

lemma offset_in_file:
  fixes off :: uint64 and fsz :: uint32
  assumes "off < ucast fsz"
  shows "unat off < unat fsz"
    and "unat off + unat (ucast fsz - off) \<le> unat fsz"
    and "0 < ucast fsz - off"
proof -
  from assms show a: "unat off < unat fsz"
    by (simp add: word_less_nat_alt unat_ucast_32_64)
  from assms have le: "off \<le> ucast fsz" by simp
  from unat_sub [OF le] a show "unat off + unat (ucast fsz - off) \<le> unat fsz"
    by (simp add: unat_ucast_32_64)
  from assms show "0 < ucast fsz - off"
    by (simp add: word_neq_0_conv [symmetric])
qed

lemma wb_bytes_fit:
  fixes off :: uint64 and fsz :: uint32
  assumes "off < ucast fsz"
  shows "unat off + unat (wb_bytes fsz off) \<le> unat fsz" and "0 < wb_bytes fsz off"
proof -
  have "wb_bytes fsz off \<le> ucast fsz - off"
    by (auto simp: wb_bytes_def)
  then have "unat (wb_bytes fsz off) \<le> unat (ucast fsz - off)"
    by (simp add: word_le_nat_alt)
  with offset_in_file(2) [OF assms] show "unat off + unat (wb_bytes fsz off) \<le> unat fsz"
    by simp
  from offset_in_file(3) [OF assms] show "0 < wb_bytes fsz off"
    by (simp add: wb_bytes_def PGSIZE_def)
qed

lemma writei_in_file:
  assumes "unat off + unat n \<le> unat (isize s ip)"
  shows "isize (writei s ip src off n) = isize s"
    and "vmas (writei s ip src off n) = vmas s"
    and "pagetable (writei s ip src off n) = pagetable s"
    and "files (writei s ip src off n) = files s"
    and "mkm (writei s ip src off n) = mkm s"
    and "mem (writei s ip src off n) = mem s"
  using assms by (auto simp: writei_def Let_def fun_eq_iff)

lemma writeback_one_eq:
  "writeback_one s d =
     (if d_offset d < ucast (isize s (d_ip d))
      then (writei s (d_ip d) (d_pa d) (d_offset d) (wb_bytes (isize s (d_ip d)) (d_offset d)),
            [V_ilock (d_ip d),
             V_writei (d_ip d) (d_pa d) (d_offset d) (wb_bytes (isize s (d_ip d)) (d_offset d)),
             V_iunlock (d_ip d)])
      else (s, [V_ilock (d_ip d), V_iunlock (d_ip d)]))"
proof (cases "d_offset d < ucast (isize s (d_ip d))")
  case True
  from wb_bytes_fit(2) [OF True] True show ?thesis
    by (simp add: writeback_one_def Let_def wb_bytes_def)
next
  case False
  then show ?thesis by (simp add: writeback_one_def Let_def)
qed

lemma writeback_one_frame:
  assumes "writeback_one s d = (s1, c1)"
  shows "isize s1 = isize s \<and> vmas s1 = vmas s \<and> pagetable s1 = pagetable s
       \<and> files s1 = files s \<and> mkm s1 = mkm s \<and> mem s1 = mem s"
proof (cases "d_offset d < ucast (isize s (d_ip d))")
  case True
  from wb_bytes_fit(1) [OF True]
  have fit: "unat (d_offset d) + unat (wb_bytes (isize s (d_ip d)) (d_offset d))
               \<le> unat (isize s (d_ip d))" .
  from assms True have "s1 = writei s (d_ip d) (d_pa d) (d_offset d)
                               (wb_bytes (isize s (d_ip d)) (d_offset d))"
    by (simp add: writeback_one_eq)
  with writei_in_file [OF fit] show ?thesis by simp
next
  case False
  with assms show ?thesis by (simp add: writeback_one_eq)
qed

lemma writeback_frame:
  "writeback s ds = (s', cs) \<Longrightarrow>
   isize s' = isize s \<and> vmas s' = vmas s \<and> pagetable s' = pagetable s
   \<and> files s' = files s \<and> mkm s' = mkm s \<and> mem s' = mem s"
proof (induction ds arbitrary: s s' cs)
  case Nil
  then show ?case by simp
next
  case (Cons d ds)
  obtain s1 c1 where one: "writeback_one s d = (s1, c1)" by (cases "writeback_one s d")
  obtain s2 c2 where rest: "writeback s1 ds = (s2, c2)" by (cases "writeback s1 ds")
  from Cons.prems one rest have "s' = s2" by simp
  with Cons.IH [OF rest] writeback_one_frame [OF one] show ?case by simp
qed

lemma writes_of_append: "writes_of (xs @ ys) = writes_of xs @ writes_of ys"
  by (induction xs rule: writes_of.induct) auto

lemma writeback_writes:
  "writes_of (snd (writeback s ds)) = concat (map (wb_write (isize s)) ds)"
proof (induction ds arbitrary: s)
  case Nil
  then show ?case by simp
next
  case (Cons d ds)
  obtain s1 c1 where one: "writeback_one s d = (s1, c1)" by (cases "writeback_one s d")
  obtain s2 c2 where rest: "writeback s1 ds = (s2, c2)" by (cases "writeback s1 ds")
  from writeback_one_frame [OF one] have sz: "isize s1 = isize s" by simp
  from one have c1: "writes_of c1 = wb_write (isize s) d"
    by (auto simp: writeback_one_eq wb_write_def split: if_splits)
  from Cons.IH [of s1] rest sz have "writes_of c2 = concat (map (wb_write (isize s)) ds)"
    by simp
  with one rest c1 show ?case
    by (simp add: writes_of_append)
qed

lemma writeback_txn:
  "txn_scan 1 (snd (writeback s ds) @ rest) = txn_scan 1 rest"
proof (induction ds arbitrary: s)
  case Nil
  then show ?case by simp
next
  case (Cons d ds)
  obtain s1 c1 where one: "writeback_one s d = (s1, c1)" by (cases "writeback_one s d")
  obtain s2 c2 where r: "writeback s1 ds = (s2, c2)" by (cases "writeback s1 ds")
  from one have "txn_scan 1 (c1 @ c2 @ rest) = txn_scan 1 (c2 @ rest)"
    by (auto simp: writeback_one_eq split: if_splits)
  moreover from Cons.IH [of s1] r have "txn_scan 1 (c2 @ rest) = txn_scan 1 rest" by simp
  ultimately show ?case using one r by simp
qed

lemma unmap_pages_frame:
  "unmap_pages L s vas = Some (s', cs) \<Longrightarrow>
   isize s' = isize s \<and> vmas s' = vmas s \<and> files s' = files s \<and> idata s' = idata s
   \<and> writes_of cs = []"
proof (induction vas arbitrary: s s' cs)
  case Nil
  then show ?case by simp
next
  case (Cons va vas)
  show ?case
  proof (cases "pagetable s va")
    case None
    with Cons show ?thesis by simp
  next
    case (Some pa)
    with Cons.prems obtain k t ct where k: "kfree L (mkm s) pa = Some k"
      and t: "unmap_pages L (s\<lparr>pagetable := (pagetable s)(va := None), mkm := k\<rparr>) vas = Some (t, ct)"
      and e: "s' = t" "cs = V_uvmunmap va # ct"
      by (auto split: option.splits)
    from Cons.IH [OF t] e show ?thesis by simp
  qed
qed

lemma unmap_pages_txn:
  "unmap_pages L s vas = Some (s', cs) \<Longrightarrow> st \<noteq> 1 \<Longrightarrow>
   txn_scan st (cs @ rest) = (if cs = [] then txn_scan st rest else txn_scan 2 rest)"
proof (induction vas arbitrary: s s' cs st)
  case Nil
  then show ?case by simp
next
  case (Cons va vas)
  show ?case
  proof (cases "pagetable s va")
    case None
    with Cons show ?thesis by simp
  next
    case (Some pa)
    with Cons.prems obtain k t ct where k: "kfree L (mkm s) pa = Some k"
      and t: "unmap_pages L (s\<lparr>pagetable := (pagetable s)(va := None), mkm := k\<rparr>) vas = Some (t, ct)"
      and e: "s' = t" "cs = V_uvmunmap va # ct"
      by (auto split: option.splits)
    from Cons.IH [OF t, of 2] Cons.prems(2) e show ?thesis by simp
  qed
qed

lemma collect_dirty_eq:
  assumes "vflags v = MAP_SHARED" and "length ds \<le> 16"
  shows "collect_dirty s v vas ds =
           take 16 (ds @ map (\<lambda>(va, pa). \<lparr>d_ip = fip (files s (vf v)), d_pa = pa,
                                           d_offset = wb_offset v va\<rparr>)
                             (present_pages (pagetable s) vas))"
  using assms(2)
proof (induction vas arbitrary: ds)
  case Nil
  then show ?case by simp
next
  case (Cons va vas)
  show ?case
  proof (cases "pagetable s va")
    case None
    with Cons show ?thesis by simp
  next
    case (Some pa)
    show ?thesis
    proof (cases "length ds < 16")
      case True
      with Cons.IH [of "ds @ [\<lparr>d_ip = fip (files s (vf v)), d_pa = pa,
                                d_offset = voffset v + (va - vaddr v)\<rparr>]"]
        Some assms(1) show ?thesis
        by (simp add: wb_offset_def)
    next
      case False
      with Cons.prems have "length ds = 16" by simp
      with Cons.IH [of ds] Some assms(1) show ?thesis by simp
    qed
  qed
qed

lemma collect_dirty_private:
  "vflags v \<noteq> MAP_SHARED \<Longrightarrow> collect_dirty s v vas ds = ds"
  by (induction vas arbitrary: ds) (auto split: option.splits)

lemma collect_dirty_entries:
  assumes "vflags v = MAP_SHARED"
  shows "collect_dirty s v vas [] =
           take 16 (map (dirty_entry s v) (present_pages (pagetable s) vas))"
proof -
  have "(\<lambda>(va, pa). \<lparr>d_ip = fip (files s (vf v)), d_pa = pa, d_offset = wb_offset v va\<rparr>)
          = dirty_entry s v"
    by (auto simp: dirty_entry_def fun_eq_iff)
  with collect_dirty_eq [OF assms, of "[]" s vas] show ?thesis by simp
qed

lemma munmap_writeback_part:
  assumes "munmap_writeback s dirty = (s1, c1)"
  shows "writes_of c1 = concat (map (wb_write (isize s)) dirty)"
    and "isize s1 = isize s" and "vmas s1 = vmas s"
    and "txn_scan 0 (c1 @ rest) = (if c1 = [] then txn_scan 0 rest else txn_scan 2 rest)"
proof -
  obtain t c where wb: "writeback s dirty = (t, c)" by (cases "writeback s dirty")
  from writeback_writes [of s dirty] wb have w: "writes_of c = concat (map (wb_write (isize s)) dirty)"
    by simp
  from writeback_txn [of s dirty "V_end_op # rest"] wb
  have tx: "txn_scan 1 (c @ V_end_op # rest) = txn_scan 2 rest" by simp
  from assms wb w show "writes_of c1 = concat (map (wb_write (isize s)) dirty)"
    by (cases dirty) (auto simp: munmap_writeback_def writes_of_append)
  from assms wb writeback_frame [OF wb] show "isize s1 = isize s" and "vmas s1 = vmas s"
    by (auto simp: munmap_writeback_def split: if_splits)
  from assms wb tx show "txn_scan 0 (c1 @ rest) = (if c1 = [] then txn_scan 0 rest else txn_scan 2 rest)"
    by (auto simp: munmap_writeback_def split: if_splits)
qed

lemma munmap_update_frame:
  assumes "munmap_update i v a n s2 = (s3, c3)"
  shows "isize s3 = isize s2" and "c3 = [] \<or> c3 = [V_fileclose (vf v)]"
    and "a = vaddr v \<Longrightarrow> n \<noteq> vlen v \<Longrightarrow>
         vmas s3 = (vmas s2)[i := v\<lparr>vaddr := vaddr v + n, vlen := vlen v - n,
                                   voffset := voffset v + n\<rparr>]"
  using assms by (auto simp: munmap_update_def split: if_splits)

lemma sys_munmap_unfold:
  assumes i: "first_index (\<lambda>v. vused v \<and> a \<ge> vaddr v \<and> a < vaddr v + vlen v) (vmas s) = Some i"
    and run: "sys_munmap L s a n = Some (0, s', cs)"
  obtains s1 c1 s2 c2 c3 where
    "munmap_writeback s (collect_dirty s (vmas s ! i)
        (page_range (PGROUNDDOWN a) (PGROUNDUP (a + n))) []) = (s1, c1)"
    and "unmap_pages L s1 (page_range (PGROUNDDOWN a) (PGROUNDUP (a + n))) = Some (s2, c2)"
    and "munmap_update i (vmas s ! i) a n s2 = (s', c3)"
    and "cs = c1 @ c2 @ c3"
proof -
  let ?v = "vmas s ! i"
  let ?pages = "page_range (PGROUNDDOWN a) (PGROUNDUP (a + n))"
  let ?dirty = "collect_dirty s ?v ?pages []"
  obtain s1 c1 where wb: "munmap_writeback s ?dirty = (s1, c1)"
    by (cases "munmap_writeback s ?dirty")
  have ne: "(- 1 :: uint64) \<noteq> 0" by simp
  from run i ne have chk: "\<not> (a \<noteq> vaddr ?v \<and> a + n \<noteq> vaddr ?v + vlen ?v)"
    by (cases "a \<noteq> vaddr ?v \<and> a + n \<noteq> vaddr ?v + vlen ?v")
       (simp_all add: sys_munmap_def Let_def)
  with run i wb have r1: "(case unmap_pages L s1 ?pages of
                    None \<Rightarrow> None
                  | Some (s2, c2) \<Rightarrow>
                      (case munmap_update i ?v a n s2 of (s3, c3) \<Rightarrow>
                         Some (0 :: uint64, s3, c1 @ c2 @ c3))) = Some (0, s', cs)"
    by (simp add: sys_munmap_def Let_def)
  then obtain s2 c2 where um: "unmap_pages L s1 ?pages = Some (s2, c2)"
    by (cases "unmap_pages L s1 ?pages") auto
  obtain s3 c3 where up: "munmap_update i ?v a n s2 = (s3, c3)"
    by (cases "munmap_update i ?v a n s2")
  from r1 um up have "s' = s3" "cs = c1 @ c2 @ c3" by simp_all
  with wb um up that show thesis by blast
qed

lemma sys_munmap_writes:
  assumes i: "first_index (\<lambda>v. vused v \<and> a \<ge> vaddr v \<and> a < vaddr v + vlen v) (vmas s) = Some i"
    and sh: "vflags (vmas s ! i) = MAP_SHARED"
    and run: "sys_munmap L s a n = Some (0, s', cs)"
  shows "writes_of cs =
           concat (map (wb_write (isize s))
             (take 16 (map (dirty_entry s (vmas s ! i))
                (present_pages (pagetable s)
                   (page_range (PGROUNDDOWN a) (PGROUNDUP (a + n)))))))
       \<and> isize s' = isize s
       \<and> one_transaction cs"
proof -
  let ?pages = "page_range (PGROUNDDOWN a) (PGROUNDUP (a + n))"
  from sys_munmap_unfold [OF i run] obtain s1 c1 s2 c2 c3 where
    wb: "munmap_writeback s (collect_dirty s (vmas s ! i) ?pages []) = (s1, c1)"
    and um: "unmap_pages L s1 ?pages = Some (s2, c2)"
    and up: "munmap_update i (vmas s ! i) a n s2 = (s', c3)"
    and cs: "cs = c1 @ c2 @ c3"
    by blast
  note w = munmap_writeback_part [OF wb]
  note u = unmap_pages_frame [OF um]
  note f = munmap_update_frame(1,2) [OF up]
  from f(2) have w3: "writes_of c3 = []" by auto
  have "writes_of cs = writes_of c1"
    using u w3 by (simp add: cs writes_of_append)
  with w(1) collect_dirty_entries [OF sh]
  have writes: "writes_of cs =
           concat (map (wb_write (isize s))
             (take 16 (map (dirty_entry s (vmas s ! i)) (present_pages (pagetable s) ?pages))))"
    by simp
  have size: "isize s' = isize s"
    using f(1) u w(2) by simp
  have t3: "txn_scan st c3" if "st \<noteq> 1" for st
    using f(2) that by auto
  have t23: "txn_scan st (c2 @ c3)" if "st \<noteq> 1" for st
    using unmap_pages_txn [OF um that, of c3] t3 [OF that] t3 [of 2] by (simp split: if_splits)
  have "txn_scan 0 (c1 @ c2 @ c3)"
    using w(4) [of "c2 @ c3"] t23 [of 0] t23 [of 2] by (simp split: if_splits)
  then have txn: "one_transaction cs"
    by (simp add: one_transaction_def cs)
  from writes size txn show ?thesis by blast
qed

lemma kfree_ok_Some: "kfree_ok L pa \<Longrightarrow> \<exists>k'. kfree L k pa = Some k'"
  by (auto simp: kfree_ok_def kfree_def)

lemma unmap_pages_result:
  assumes "\<forall>va \<in> set vas. \<forall>pa. pagetable s va = Some pa \<longrightarrow> kfree_ok L pa"
  shows "\<exists>s' cs. unmap_pages L s vas = Some (s', cs)
           \<and> pagetable s' = (\<lambda>va. if va \<in> set vas then None else pagetable s va)
           \<and> idata s' = idata s \<and> isize s' = isize s \<and> vmas s' = vmas s
           \<and> files s' = files s \<and> mem s' = mem s"
  using assms
proof (induction vas arbitrary: s)
  case Nil
  then show ?case by simp
next
  case (Cons va vas)
  show ?case
  proof (cases "pagetable s va")
    case None
    from Cons.prems have "\<forall>va \<in> set vas. \<forall>pa. pagetable s va = Some pa \<longrightarrow> kfree_ok L pa"
      by simp
    from Cons.IH [OF this] None show ?thesis
      by (auto simp: fun_eq_iff)
  next
    case (Some pa)
    with Cons.prems have "kfree_ok L pa" by simp
    from kfree_ok_Some [OF this] obtain k where k: "kfree L (mkm s) pa = Some k" ..
    let ?s1 = "s\<lparr>pagetable := (pagetable s)(va := None), mkm := k\<rparr>"
    from Cons.prems have "\<forall>va \<in> set vas. \<forall>pa. pagetable ?s1 va = Some pa \<longrightarrow> kfree_ok L pa"
      by simp
    from Cons.IH [OF this] obtain s' cs where r: "unmap_pages L ?s1 vas = Some (s', cs)"
      and p: "pagetable s' = (\<lambda>v. if v \<in> set vas then None else pagetable ?s1 v)"
      and f: "idata s' = idata ?s1" "isize s' = isize ?s1" "vmas s' = vmas ?s1"
             "files s' = files ?s1" "mem s' = mem ?s1"
      by blast
    from Some k r have "unmap_pages L s (va # vas) = Some (s', V_uvmunmap va # cs)"
      by simp
    with p f show ?thesis
      by (auto simp: fun_eq_iff)
  qed
qed

lemma sys_munmap_returns:
  assumes i: "first_index (\<lambda>v. vused v \<and> a \<ge> vaddr v \<and> a < vaddr v + vlen v) (vmas s) = Some i"
    and chk: "a = vaddr (vmas s ! i) \<or> a + n = vaddr (vmas s ! i) + vlen (vmas s ! i)"
    and pg: "page_range (PGROUNDDOWN a) (PGROUNDUP (a + n)) = pages"
    and ok: "\<forall>va \<in> set pages. \<forall>pa. pagetable s va = Some pa \<longrightarrow> kfree_ok L pa"
    and wb: "munmap_writeback s (collect_dirty s (vmas s ! i) pages []) = (s1, c1)"
  shows "\<exists>s2 c2 s3 c3.
           sys_munmap L s a n = Some (0, s3, c1 @ c2 @ c3)
           \<and> unmap_pages L s1 pages = Some (s2, c2)
           \<and> munmap_update i (vmas s ! i) a n s2 = (s3, c3)
           \<and> pagetable s3 = (\<lambda>va. if va \<in> set pages then None else pagetable s va)
           \<and> idata s3 = idata s1 \<and> isize s3 = isize s \<and> mem s3 = mem s"
proof -
  obtain t c where w: "writeback s (collect_dirty s (vmas s ! i) pages []) = (t, c)"
    by (cases "writeback s (collect_dirty s (vmas s ! i) pages [])")
  from wb w writeback_frame [OF w] have fr: "pagetable s1 = pagetable s" "isize s1 = isize s"
    "mem s1 = mem s"
    by (auto simp: munmap_writeback_def split: if_splits)
  from ok fr have "\<forall>va \<in> set pages. \<forall>pa. pagetable s1 va = Some pa \<longrightarrow> kfree_ok L pa"
    by simp
  from unmap_pages_result [OF this] obtain s2 c2 where
    um: "unmap_pages L s1 pages = Some (s2, c2)"
    and p2: "pagetable s2 = (\<lambda>va. if va \<in> set pages then None else pagetable s1 va)"
    and f2: "idata s2 = idata s1" "isize s2 = isize s1" "mem s2 = mem s1"
    by blast
  obtain s3 c3 where up: "munmap_update i (vmas s ! i) a n s2 = (s3, c3)"
    by (cases "munmap_update i (vmas s ! i) a n s2")
  then have f3: "pagetable s3 = pagetable s2" "idata s3 = idata s2" "isize s3 = isize s2"
    "mem s3 = mem s2"
    by (auto simp: munmap_update_def split: if_splits)
  from i chk pg wb um up have "sys_munmap L s a n = Some (0, s3, c1 @ c2 @ c3)"
    by (auto simp: sys_munmap_def Let_def)
  with um up p2 f2 f3 fr show ?thesis by (simp cong: if_cong)
qed

lemma demo_big_sel:
  "sz demo_big = 0x4000"
  "vmas demo_big = [\<lparr>vused = True, vaddr = 0x3FFFFCD000, vlen = 0x11000, vprot = 3, vflags = 1,
               vf = 0, voffset = 0\<rparr>]"
  "pagetable demo_big va = (if 0x3FFFFCD000 \<le> va \<and> va < 0x3FFFFDE000
                         then Some (0x80200000 + (va - 0x3FFFFCD000)) else None)"
  "files demo_big f = \<lparr>readable = True, writable = True, fip = 1, fref = 2\<rparr>"
  "isize demo_big ip = 0x11000"
  "idata demo_big ip j = 0"
  "mem demo_big pa j = 1"
  "mkm demo_big = demo_kmem"
  by (simp_all add: demo_big_def)

lemma demo_kmem_sel:
  "freelist demo_kmem = 0x80100000"
  "nxt demo_kmem a = (if a = 0x8013F000 then 0 else a + 0x1000)"
  by (simp_all add: demo_kmem_def)

lemmas vm_eval = demo_big_sel demo_kmem_sel demo_layout_def
  PGSIZE_def PGROUNDUP_def PGROUNDDOWN_def MAP_SHARED_def
  munmap_writeback_def munmap_update_def page_range.simps writeback_one_eq
  wb_bytes_def writei_def kfree_def kfree_ok_def Let_def

lemma unmap_pages_absent:
  "unmap_pages L s vas = Some (s', cs) \<Longrightarrow>
   pagetable s' = (\<lambda>va. if va \<in> set vas then None else pagetable s va)"
proof (induction vas arbitrary: s s' cs)
  case Nil
  then show ?case by simp
next
  case (Cons va vas)
  show ?case
  proof (cases "pagetable s va")
    case None
    with Cons.prems have "unmap_pages L s vas = Some (s', cs)" by simp
    from Cons.IH [OF this] None show ?thesis by (auto simp: fun_eq_iff)
  next
    case (Some pa)
    with Cons.prems obtain k t ct where k: "kfree L (mkm s) pa = Some k"
      and t: "unmap_pages L (s\<lparr>pagetable := (pagetable s)(va := None), mkm := k\<rparr>) vas = Some (t, ct)"
      and e: "s' = t" "cs = V_uvmunmap va # ct"
      by (auto split: option.splits)
    from Cons.IH [OF t] e show ?thesis by (auto simp: fun_eq_iff)
  qed
qed

lemma munmap_writeback_pagetable:
  "munmap_writeback s dirty = (s1, c1) \<Longrightarrow> pagetable s1 = pagetable s"
proof -
  assume wb: "munmap_writeback s dirty = (s1, c1)"
  obtain t c where w: "writeback s dirty = (t, c)" by (cases "writeback s dirty")
  from wb w writeback_frame [OF w] show ?thesis
    by (auto simp: munmap_writeback_def split: if_splits)
qed

lemma munmap_update_pagetable:
  "munmap_update i v a n s2 = (s3, c3) \<Longrightarrow> pagetable s3 = pagetable s2"
  by (auto simp: munmap_update_def split: if_splits)

lemma sys_munmap_unmaps:
  assumes i: "first_index (\<lambda>v. vused v \<and> a \<ge> vaddr v \<and> a < vaddr v + vlen v) (vmas s) = Some i"
    and run: "sys_munmap L s a n = Some (0, s', cs)"
  shows "pagetable s' = (\<lambda>va. if va \<in> set (page_range (PGROUNDDOWN a) (PGROUNDUP (a + n)))
                               then None else pagetable s va)"
proof -
  let ?pages = "page_range (PGROUNDDOWN a) (PGROUNDUP (a + n))"
  from sys_munmap_unfold [OF i run] obtain s1 c1 s2 c2 c3 where
    wb: "munmap_writeback s (collect_dirty s (vmas s ! i) ?pages []) = (s1, c1)"
    and um: "unmap_pages L s1 ?pages = Some (s2, c2)"
    and up: "munmap_update i (vmas s ! i) a n s2 = (s', c3)"
    and cs: "cs = c1 @ c2 @ c3"
    by blast
  have "pagetable s' = pagetable s2"
    by (rule munmap_update_pagetable [OF up])
  also have "\<dots> = (\<lambda>va. if va \<in> set ?pages then None else pagetable s1 va)"
    by (rule unmap_pages_absent [OF um])
  also have "\<dots> = (\<lambda>va. if va \<in> set ?pages then None else pagetable s va)"
    by (simp only: munmap_writeback_pagetable [OF wb])
  finally show ?thesis .
qed

text \<open>C1 does not hold of the code. A \<^verbatim>\<open>munmap(addr, len)\<close> that succeeds on a
  \<^verbatim>\<open>MAP_SHARED\<close> mapping unmaps every page of the page-rounded range
  \<^verbatim>\<open>[PGROUNDDOWN(addr), PGROUNDUP(addr + len))\<close>, but it writes back only the first 16 of
  the present ones, in address order (the array \<^verbatim>\<open>dirty_pages\<close> has 16 entries, and a
  present page found when it is full is skipped): the writes to files are exactly, for
  each of these 16 pages whose file offset is inside the file, one \<^verbatim>\<open>writei\<close> from the
  page's frame to that offset, of the bytes up to the end of the file and at most
  \<^verbatim>\<open>PGSIZE\<close>. So the present pages after the sixteenth are unmapped and their contents
  lost. The size of every file is unchanged, and the writes are inside one transaction
  that ends before the first page is unmapped.\<close>

theorem munmap_skips_pages_after_16:
  assumes i: "first_index (\<lambda>v. vused v \<and> a \<ge> vaddr v \<and> a < vaddr v + vlen v) (vmas s) = Some i"
    and sh: "vflags (vmas s ! i) = MAP_SHARED"
    and run: "sys_munmap L s a n = Some (0, s', cs)"
  shows "writes_of cs =
           concat (map (wb_write (isize s))
             (take 16 (map (dirty_entry s (vmas s ! i))
                (present_pages (pagetable s)
                   (page_range (PGROUNDDOWN a) (PGROUNDUP (a + n)))))))
       \<and> (\<forall>va \<in> set (page_range (PGROUNDDOWN a) (PGROUNDUP (a + n))). pagetable s' va = None)
       \<and> isize s' = isize s
       \<and> one_transaction cs"
proof -
  note w = sys_munmap_writes [OF i sh run]
  have "pagetable s' va = None"
    if "va \<in> set (page_range (PGROUNDDOWN a) (PGROUNDUP (a + n)))" for va
    using that by (simp add: sys_munmap_unmaps [OF i run])
  with w show ?thesis by blast
qed

text \<open>A shared mapping of 17 pages of a file of 17 pages, all present and holding the
  byte 1 where the file holds 0: \<^verbatim>\<open>munmap\<close> of the whole mapping returns 0 and unmaps
  all 17 pages after 16 writes. The 17th page, at 0x3FFFFDD000 with frame 0x80210000
  and file offset 0x10000, is not written, and the file keeps its old byte there.\<close>

theorem munmap_skips_pages_after_16_witness:
  "\<exists>s' cs.
     first_index (\<lambda>v. vused v \<and> 0x3FFFFCD000 \<ge> vaddr v \<and> 0x3FFFFCD000 < vaddr v + vlen v)
       (vmas demo_big) = Some 0
     \<and> vflags (vmas demo_big ! 0) = MAP_SHARED
     \<and> sys_munmap demo_layout demo_big 0x3FFFFCD000 0x11000 = Some (0, s', cs)
     \<and> length (present_pages (pagetable demo_big)
          (page_range (PGROUNDDOWN 0x3FFFFCD000) (PGROUNDUP (0x3FFFFCD000 + 0x11000)))) = 17
     \<and> pagetable demo_big 0x3FFFFDD000 = Some 0x80210000
     \<and> pagetable s' 0x3FFFFDD000 = None
     \<and> length (writes_of cs) = 16
     \<and> (1, 0x80210000, 0x10000, 0x1000) \<notin> set (writes_of cs)
     \<and> one_transaction cs
     \<and> mem demo_big 0x80210000 0 = 1
     \<and> idata s' 1 0x10000 = 0"
proof -
  let ?pages = "[0x3FFFFCD000, 0x3FFFFCE000, 0x3FFFFCF000, 0x3FFFFD0000, 0x3FFFFD1000,
    0x3FFFFD2000, 0x3FFFFD3000, 0x3FFFFD4000, 0x3FFFFD5000, 0x3FFFFD6000, 0x3FFFFD7000,
    0x3FFFFD8000, 0x3FFFFD9000, 0x3FFFFDA000, 0x3FFFFDB000, 0x3FFFFDC000,
    0x3FFFFDD000 :: uint64]"
  have i: "first_index (\<lambda>v. vused v \<and> 0x3FFFFCD000 \<ge> vaddr v \<and> 0x3FFFFCD000 < vaddr v + vlen v)
             (vmas demo_big) = Some 0"
    by (simp add: vm_eval)
  have sh: "vflags (vmas demo_big ! 0) = MAP_SHARED"
    by (simp add: vm_eval)
  have chk: "0x3FFFFCD000 = vaddr (vmas demo_big ! 0)
             \<or> 0x3FFFFCD000 + 0x11000 = vaddr (vmas demo_big ! 0) + vlen (vmas demo_big ! 0)"
    by (simp add: vm_eval)
  have pg: "page_range (PGROUNDDOWN 0x3FFFFCD000) (PGROUNDUP (0x3FFFFCD000 + 0x11000)) = ?pages"
    by (simp add: vm_eval)
  have np: "length (present_pages (pagetable demo_big) ?pages) = 17"
    by (simp add: demo_big_sel)
  have ok: "\<forall>va \<in> set ?pages. \<forall>pa. pagetable demo_big va = Some pa \<longrightarrow> kfree_ok demo_layout pa"
    by (simp add: vm_eval)
  obtain s1 c1 where wb: "munmap_writeback demo_big (collect_dirty demo_big (vmas demo_big ! 0) ?pages []) = (s1, c1)"
    and d1: "idata s1 1 0x10000 = 0"
    and n1: "length (writes_of c1) = 16"
    and w1: "(1, 0x80210000, 0x10000, 0x1000) \<notin> set (writes_of c1)"
    by (simp add: vm_eval)
  from sys_munmap_returns [OF i chk pg ok wb] obtain s2 c2 s3 c3 where
    run: "sys_munmap demo_layout demo_big 0x3FFFFCD000 0x11000 = Some (0, s3, c1 @ c2 @ c3)"
    and um: "unmap_pages demo_layout s1 ?pages = Some (s2, c2)"
    and up: "munmap_update 0 (vmas demo_big ! 0) 0x3FFFFCD000 0x11000 s2 = (s3, c3)"
    and d3: "idata s3 = idata s1"
    by blast
  from unmap_pages_frame [OF um] have w2: "writes_of c2 = []" by simp
  from munmap_update_frame(2) [OF up] have w3: "writes_of c3 = []" by auto
  have ws: "writes_of (c1 @ c2 @ c3) = writes_of c1"
    by (simp add: writes_of_append w2 w3)
  note inst = munmap_skips_pages_after_16 [OF i sh run]
  from inst have gone: "pagetable s3 0x3FFFFDD000 = None"
    unfolding pg by simp
  from inst have tx: "one_transaction (c1 @ c2 @ c3)" by simp
  have there: "pagetable demo_big 0x3FFFFDD000 = Some 0x80210000"
    and byte: "mem demo_big 0x80210000 0 = 1"
    by (simp_all add: demo_big_sel)
  from n1 ws have n: "length (writes_of (c1 @ c2 @ c3)) = 16" by simp
  from w1 ws have w: "(1, 0x80210000, 0x10000, 0x1000) \<notin> set (writes_of (c1 @ c2 @ c3))" by simp
  from d1 d3 have d: "idata s3 1 0x10000 = 0" by simp
  show ?thesis
    by (rule exI [of _ s3], rule exI [of _ "c1 @ c2 @ c3"])
       (intro conjI i sh run np [folded pg] there gone n w tx byte d)
qed

lemma demo_proc_sel:
  "sz demo_proc = 0x4000"
  "ofile demo_proc = [Some 0, None, None, None, None, None, None, None,
               None, None, None, None, None, None, None, None]"
  "vmas demo_proc = [demo_slot, demo_slot, demo_slot, demo_slot, demo_slot, demo_slot, demo_slot,
              demo_slot, demo_slot, demo_slot, demo_slot, demo_slot, demo_slot, demo_slot,
              demo_slot, demo_slot]"
  "pagetable demo_proc va = None"
  "files demo_proc f = \<lparr>readable = True, writable = True, fip = 1, fref = 1\<rparr>"
  "isize demo_proc ip = 8"
  "idata demo_proc ip j = (if j < 8 then [0x41, 0x42, 0x43, 0x44, 0x45, 0x46, 0x47, 0x48] ! j else 0)"
  "mem demo_proc pa j = 0"
  "mkm demo_proc = demo_kmem"
  by (simp_all add: demo_proc_def)

lemmas mmap_eval = demo_proc_sel demo_kmem_sel demo_layout_def demo_vmconst_def demo_slot_def
  sys_mmap_def mmap_search.simps mmap_conflict_def mmap_failed_def
  PGSIZE_def PGROUNDUP_def PGROUNDDOWN_def MAP_SHARED_def PROT_WRITE_def PROT_READ_def PROT_EXEC_def
  handle_mmap_fault_def readi_def user_store_def kalloc_def kfree_def kfree_ok_def Let_def
  munmap_writeback_def munmap_update_def page_range.simps writeback_one_eq wb_bytes_def writei_def
  wb_write_def dirty_entry_def wb_offset_def


text \<open>The mmap round-trip of the spec, which has one page: the file \<^verbatim>\<open>ABCDEFGH\<close> is
  mapped shared, the first access faults the page in, the program stores \<^verbatim>\<open>abcd\<close>, and
  \<^verbatim>\<open>munmap\<close> writes the 8 bytes back: the file holds \<^verbatim>\<open>abcdEFGH\<close>.\<close>

lemma mmap_round_trip:
  "\<exists>sA sB cB sC sD cs.
     sys_mmap demo_vmconst demo_proc 0 8 3 MAP_SHARED 0 0 = Some (0x3FFFFFD000, sA, [V_filedup 0])
     \<and> handle_mmap_fault demo_layout True sA 0x3FFFFFD000 = Some (0, sB, cB)
     \<and> user_write sB 0x3FFFFFD000 [0x61, 0x62, 0x63, 0x64] = Some sC
     \<and> sys_munmap demo_layout sC 0x3FFFFFD000 8 = Some (0, sD, cs)
     \<and> writes_of cs = [(1, 0x80100000, 0, 8)]
     \<and> one_transaction cs
     \<and> isize sD 1 = 8
     \<and> map (idata sD 1) [0, 1, 2, 3, 4, 5, 6, 7] = [0x61, 0x62, 0x63, 0x64, 0x45, 0x46, 0x47, 0x48]"
proof -
  obtain sA sB cB sC where
    mm: "sys_mmap demo_vmconst demo_proc 0 8 3 MAP_SHARED 0 0 = Some (0x3FFFFFD000, sA, [V_filedup 0])"
    and fault: "handle_mmap_fault demo_layout True sA 0x3FFFFFD000 = Some (0, sB, cB)"
    and store: "user_write sB 0x3FFFFFD000 [0x61, 0x62, 0x63, 0x64] = Some sC"
    and i: "first_index (\<lambda>v. vused v \<and> 0x3FFFFFD000 \<ge> vaddr v \<and> 0x3FFFFFD000 < vaddr v + vlen v)
              (vmas sC) = Some 0"
    and v0: "vmas sC ! 0 = \<lparr>vused = True, vaddr = 0x3FFFFFD000, vlen = 0x1000, vprot = 3,
                             vflags = 1, vf = 0, voffset = 0\<rparr>"
    and pt: "pagetable sC 0x3FFFFFD000 = Some 0x80100000"
    and fi: "fip (files sC 0) = Suc 0"
    and size: "isize sC (Suc 0) = 8"
    and bytes: "map (idata (writei sC 1 0x80100000 0 8) 1) [0, 1, 2, 3, 4, 5, 6, 7]
                 = [0x61, 0x62, 0x63, 0x64, 0x45, 0x46, 0x47, 0x48]"
    by (simp add: mmap_eval)
  have sh: "vflags (vmas sC ! 0) = MAP_SHARED"
    by (simp add: v0 MAP_SHARED_def)
  have chk: "0x3FFFFFD000 = vaddr (vmas sC ! 0)
              \<or> 0x3FFFFFD000 + 8 = vaddr (vmas sC ! 0) + vlen (vmas sC ! 0)"
    by (simp add: v0)
  have ok: "\<forall>va \<in> set [0x3FFFFFD000]. \<forall>pa. pagetable sC va = Some pa \<longrightarrow> kfree_ok demo_layout pa"
    by (simp add: pt kfree_ok_def demo_layout_def PGSIZE_def)
  note prim = v0 pt fi size dirty_entry_def wb_offset_def wb_write_def wb_bytes_def PGSIZE_def
    MAP_SHARED_def
  have pg: "page_range (PGROUNDDOWN 0x3FFFFFD000) (PGROUNDUP (0x3FFFFFD000 + 8)) = [0x3FFFFFD000]"
    by (simp add: mmap_eval)
  have cd: "collect_dirty sC (vmas sC ! 0) [0x3FFFFFD000] [] = [\<lparr>d_ip = 1, d_pa = 0x80100000, d_offset = 0\<rparr>]"
    by (simp add: prim)
  have wb: "munmap_writeback sC (collect_dirty sC (vmas sC ! 0) [0x3FFFFFD000] [])
              = (writei sC 1 0x80100000 0 8,
                 [V_begin_op, V_ilock 1, V_writei 1 0x80100000 0 8, V_iunlock 1, V_end_op])"
    unfolding cd by (simp add: munmap_writeback_def writeback_one_eq prim)
  from sys_munmap_returns [OF i chk pg ok wb] obtain sD c2 c3 where
    run: "sys_munmap demo_layout sC 0x3FFFFFD000 8
            = Some (0, sD, [V_begin_op, V_ilock 1, V_writei 1 0x80100000 0 8, V_iunlock 1, V_end_op]
                           @ c2 @ c3)"
    and dD: "idata sD = idata (writei sC 1 0x80100000 0 8)"
    by blast
  note inst = sys_munmap_writes [OF i sh run]
  from inst have w: "writes_of ([V_begin_op, V_ilock 1, V_writei 1 0x80100000 0 8, V_iunlock 1, V_end_op]
                           @ c2 @ c3) = [(1, 0x80100000, 0, 8)]"
    by (simp add: pg [simplified] prim)
  from inst have sz: "isize sD 1 = 8" by (simp add: size)
  from inst have tx: "one_transaction ([V_begin_op, V_ilock 1, V_writei 1 0x80100000 0 8, V_iunlock 1, V_end_op]
                           @ c2 @ c3)" by simp
  from bytes dD have bts: "map (idata sD 1) [0, 1, 2, 3, 4, 5, 6, 7] = [0x61, 0x62, 0x63, 0x64, 0x45, 0x46, 0x47, 0x48]"
    by simp
  show ?thesis
    by (rule exI [of _ sA], rule exI [of _ sB], rule exI [of _ cB], rule exI [of _ sC],
        rule exI [of _ sD],
        rule exI [of _ "[V_begin_op, V_ilock 1, V_writei 1 0x80100000 0 8, V_iunlock 1, V_end_op]
                           @ c2 @ c3"])
       (intro conjI mm fault store run w tx sz bts)
qed

text \<open>C8. \<^verbatim>\<open>munmap(addr, len)\<close> at the start of a mapping with a \<open>len\<close> other than the
  mapping's (page-rounded) length returns 0 and moves the start of the slot by \<open>len\<close>
  bytes, whatever \<open>len\<close> is: the slot stays in use at \<open>addr + len\<close> with \<open>len\<close> bytes
  less, also when \<open>len\<close> is not a multiple of the page size or exceeds the length.\<close>

theorem munmap_len_moves_start_unaligned:
  assumes i: "first_index (\<lambda>v. vused v \<and> a \<ge> vaddr v \<and> a < vaddr v + vlen v) (vmas s) = Some i"
    and a: "a = vaddr (vmas s ! i)"
    and n: "n \<noteq> vlen (vmas s ! i)"
    and run: "sys_munmap L s a n = Some (r, s', cs)"
  shows "r = 0
       \<and> vmas s' = (vmas s)[i := (vmas s ! i)\<lparr>vaddr := a + n, vlen := vlen (vmas s ! i) - n,
                                               voffset := voffset (vmas s ! i) + n\<rparr>]"
proof -
  let ?v = "vmas s ! i"
  let ?pages = "page_range (PGROUNDDOWN a) (PGROUNDUP (a + n))"
  from a have chk: "\<not> (a \<noteq> vaddr ?v \<and> a + n \<noteq> vaddr ?v + vlen ?v)"
    by simp
  obtain s1 c1 where wb: "munmap_writeback s (collect_dirty s ?v ?pages []) = (s1, c1)"
    by (cases "munmap_writeback s (collect_dirty s ?v ?pages [])")
  have eq: "sys_munmap L s a n =
           (case unmap_pages L s1 ?pages of
              None \<Rightarrow> None
            | Some (s2, c2) \<Rightarrow>
                (case munmap_update i ?v a n s2 of (s3, c3) \<Rightarrow>
                   Some (0 :: uint64, s3, c1 @ c2 @ c3)))"
    unfolding sys_munmap_def Let_def i option.case if_not_P [OF chk] wb prod.case ..
  from eq run obtain s2 c2 where um: "unmap_pages L s1 ?pages = Some (s2, c2)"
    by (cases "unmap_pages L s1 ?pages") auto
  obtain s3 c3 where up: "munmap_update i ?v a n s2 = (s3, c3)"
    by (cases "munmap_update i ?v a n s2")
  from eq run um up have r: "r = 0" and s': "s' = s3"
    by simp_all
  from munmap_writeback_part(3) [OF wb] unmap_pages_frame [OF um]
  have v2: "vmas s2 = vmas s" by simp
  from munmap_update_frame(3) [OF up a n]
  have "vmas s3 = (vmas s2)[i := ?v\<lparr>vaddr := vaddr ?v + n, vlen := vlen ?v - n,
                                        voffset := voffset ?v + n\<rparr>]" .
  with v2 s' have "vmas s' = (vmas s)[i := ?v\<lparr>vaddr := vaddr ?v + n, vlen := vlen ?v - n,
                                        voffset := voffset ?v + n\<rparr>]"
    by simp
  moreover have "vaddr ?v + n = a + n"
    by (subst a [symmetric]) (rule refl)
  ultimately show ?thesis
    using r by (simp only: simp_thms)
qed

theorem munmap_len_moves_start_unaligned_witness:
  "\<exists>sA sD cs sE cE.
     vmas_inv demo_vmconst (vmas demo_proc)
     \<and> sys_mmap demo_vmconst demo_proc 0 8 3 MAP_SHARED 0 0 = Some (0x3FFFFFD000, sA, [V_filedup 0])
     \<and> vmas_inv demo_vmconst (vmas sA)
     \<and> sys_munmap demo_layout sA 0x3FFFFFD000 8 = Some (0, sD, cs)
     \<and> vmas sD ! 0 = \<lparr>vused = True, vaddr = 0x3FFFFFD008, vlen = 0xFF8, vprot = 3,
                        vflags = 1, vf = 0, voffset = 8\<rparr>
     \<and> vaddr (vmas sD ! 0) mod PGSIZE = 8
     \<and> \<not> vmas_inv demo_vmconst (vmas sD)
     \<and> sys_mmap demo_vmconst demo_proc 0 0xFFFFFFFFFFFFF000 1 MAP_PRIVATE 0 0
           = Some (0x3FFFFFF000, sE, cE)
     \<and> vmas sE ! 0 = \<lparr>vused = True, vaddr = 0x3FFFFFF000, vlen = 0xFFFFFFFFFFFFF000, vprot = 1,
                        vflags = 2, vf = 0, voffset = 0\<rparr>
     \<and> \<not> vmas_inv demo_vmconst (vmas sE)"
proof -
  have inv0: "vmas_inv demo_vmconst (vmas demo_proc)"
    by (simp add: vmas_inv_def vma_ok_def mmap_eval)
  obtain sA where
    mm: "sys_mmap demo_vmconst demo_proc 0 8 3 MAP_SHARED 0 0 = Some (0x3FFFFFD000, sA, [V_filedup 0])"
    and invA: "vmas_inv demo_vmconst (vmas sA)"
    and i: "first_index (\<lambda>v. vused v \<and> 0x3FFFFFD000 \<ge> vaddr v \<and> 0x3FFFFFD000 < vaddr v + vlen v)
              (vmas sA) = Some 0"
    and v0: "vmas sA ! 0 = \<lparr>vused = True, vaddr = 0x3FFFFFD000, vlen = 0x1000, vprot = 3,
                             vflags = 1, vf = 0, voffset = 0\<rparr>"
    and pt: "pagetable sA 0x3FFFFFD000 = None"
    by (simp add: mmap_eval vmas_inv_def vma_ok_def vma_disjoint_def)
  have pg: "page_range (PGROUNDDOWN 0x3FFFFFD000) (PGROUNDUP (0x3FFFFFD000 + 8)) = [0x3FFFFFD000]"
    by (simp add: mmap_eval)
  have chk: "0x3FFFFFD000 = vaddr (vmas sA ! 0)
              \<or> 0x3FFFFFD000 + 8 = vaddr (vmas sA ! 0) + vlen (vmas sA ! 0)"
    by (simp add: v0)
  have ok: "\<forall>va \<in> set [0x3FFFFFD000]. \<forall>pa. pagetable sA va = Some pa \<longrightarrow> kfree_ok demo_layout pa"
    by (simp add: pt)
  have wb: "munmap_writeback sA (collect_dirty sA (vmas sA ! 0) [0x3FFFFFD000] []) = (sA, [])"
    by (simp add: pt munmap_writeback_def)
  from sys_munmap_returns [OF i chk pg ok wb] obtain sD c2 c3 where
    run: "sys_munmap demo_layout sA 0x3FFFFFD000 8 = Some (0, sD, [] @ c2 @ c3)"
    by blast
  have a: "0x3FFFFFD000 = vaddr (vmas sA ! 0)" and n: "8 \<noteq> vlen (vmas sA ! 0)"
    by (simp_all add: v0)
  from munmap_len_moves_start_unaligned [OF i a n run]
  have vD: "vmas sD = (vmas sA)[0 := (vmas sA ! 0)\<lparr>vaddr := 0x3FFFFFD000 + 8,
              vlen := vlen (vmas sA ! 0) - 8, voffset := voffset (vmas sA ! 0) + 8\<rparr>]"
    by simp
  from i have len: "0 < length (vmas sA)"
    using first_index_Some by blast
  from vD len v0 have vD0: "vmas sD ! 0 = \<lparr>vused = True, vaddr = 0x3FFFFFD008, vlen = 0xFF8, vprot = 3,
                        vflags = 1, vf = 0, voffset = 8\<rparr>"
    by simp
  then have al: "vaddr (vmas sD ! 0) mod PGSIZE = 8"
    by (simp add: PGSIZE_def)
  from vD0 len vD have ninv: "\<not> vmas_inv demo_vmconst (vmas sD)"
    by (cases "vmas sA") (auto simp: vmas_inv_def vma_ok_def PGSIZE_def)
  obtain sE cE where
    mmE: "sys_mmap demo_vmconst demo_proc 0 0xFFFFFFFFFFFFF000 1 MAP_PRIVATE 0 0
           = Some (0x3FFFFFF000, sE, cE)"
    and vE: "vmas sE ! 0 = \<lparr>vused = True, vaddr = 0x3FFFFFF000, vlen = 0xFFFFFFFFFFFFF000, vprot = 1,
                        vflags = 2, vf = 0, voffset = 0\<rparr>"
    and ninvE: "\<not> vmas_inv demo_vmconst (vmas sE)"
    by (simp add: mmap_eval MAP_PRIVATE_def vmas_inv_def vma_ok_def)
  show ?thesis
    by (rule exI [of _ sA], rule exI [of _ sD], rule exI [of _ "[] @ c2 @ c3"],
        rule exI [of _ sE], rule exI [of _ cE])
       (intro conjI inv0 mm invA run vD0 al ninv mmE vE ninvE)
qed

end
